theory Spec2Isabelle
  imports Main "HOL-Library.Word" "HOL-Library.AList" "HOL-Library.Multiset"
begin

text \<open>
  A model of the package \<^verbatim>\<open>zapgcl\<close> (\<^verbatim>\<open>zapgcl.go\<close>): the field map of a core and its
  derivation by \<open>clone\<close>, the construction of a record by \<open>Write\<close>, the severity table,
  \<open>Enabled\<close>, \<open>Check\<close> and \<open>Tee\<close>; and of the trace helpers of the vendored logger
  (\<^verbatim>\<open>deconstructXCloudTraceContext\<close>, \<^verbatim>\<open>addCloudLoggingFields\<close>). Maps live in a heap, a
  panic is a result of its own, and the functions of Go's library that the package calls
  are either modelled after the library or taken as parameters.
\<close>

section \<open>Values held in a Go interface\<close>

text \<open>
  The payload of a log record is a \<^verbatim>\<open>map[string]interface{}\<close>. The dynamic values the
  package produces or inspects are listed one constructor each; every other dynamic value
  is a \<open>VOther\<close>, told apart by a tag only. Fixed-width integers are words. A float is
  represented by its IEEE-754 bit pattern (binary64 in a 64-bit word, binary32 in a 32-bit
  word), so that \<^verbatim>\<open>math.Float64frombits\<close> is the identity on the representation.
  A \<^verbatim>\<open>time.Time\<close> built by \<^verbatim>\<open>time.Unix(0, n)\<close> is the instant \<open>n\<close> (nanoseconds since the
  epoch) with its location: \<open>None\<close> is \<^verbatim>\<open>time.Local\<close>, \<open>Some l\<close> the location named \<open>l\<close>.
  Pointers are options: \<open>None\<close> is the nil pointer of that type.
\<close>

record HTTPPayload =
  RequestMethod :: string
  RequestURL :: string
  RequestSize :: string
  Status :: int
  ResponseSize :: string
  UserAgent :: string
  RemoteIP :: string
  ServerIP :: string
  Referer :: string
  Latency :: string
  CacheLookup :: bool
  CacheHit :: bool
  CacheValidatedWithOriginServer :: bool
  Protocol :: string

datatype val =
    VNil
  | VString string
  | VBool bool
  | VInt64 "64 word"
  | VInt32 "32 word"
  | VInt16 "16 word"
  | VInt8 "8 word"
  | VUint64 "64 word"
  | VUint32 "32 word"
  | VUint16 "16 word"
  | VUint8 "8 word"
  | VUintptr "64 word"
  | VFloat64 "64 word"
  | VFloat32 "32 word"
  | VTime "64 word" "string option"
  | VLocation "string option"
  | VHTTPPayload "HTTPPayload option"
  | VOther nat

section \<open>zapcore.Field\<close>

text \<open>
  \<^verbatim>\<open>zapcore.FieldType\<close> is a \<^verbatim>\<open>uint8\<close> with the 27 constants below, in the order of their
  declaration; \<open>UnrecognizedType n\<close> stands for any other discriminator.
\<close>

datatype FieldType =
    UnknownType
  | ArrayMarshalerType
  | ObjectMarshalerType
  | BinaryType
  | BoolType
  | ByteStringType
  | Complex128Type
  | Complex64Type
  | DurationType
  | Float64Type
  | Float32Type
  | Int64Type
  | Int32Type
  | Int16Type
  | Int8Type
  | StringType
  | TimeType
  | Uint64Type
  | Uint32Type
  | Uint16Type
  | Uint8Type
  | UintptrType
  | ReflectType
  | NamespaceType
  | StringerType
  | ErrorType
  | SkipType
  | UnrecognizedType nat

record Field =
  Key :: string
  Type :: FieldType
  Integer :: "64 word"
  String :: string
  Interface :: val

section \<open>Library functions the package calls\<close>

text \<open>
  Functions of Go's standard library whose results the package stores without looking at
  them are parameters of the model, collected in one record:
  \<^item> \<open>Sprint\<close> is \<^verbatim>\<open>fmt.Sprint\<close> of one value;
  \<^item> \<open>DurationString\<close> is \<^verbatim>\<open>time.Duration(n).String()\<close>;
  \<^item> \<open>StringerString v\<close> is the result of \<^verbatim>\<open>v.(fmt.Stringer).String()\<close>, \<open>None\<close> when
    the assertion or the method panics; \<open>ErrorString\<close> likewise for \<^verbatim>\<open>v.(error).Error()\<close>;
  \<^item> \<open>FuncName pc\<close> is \<^verbatim>\<open>runtime.FuncForPC(pc).Name()\<close>;
  \<^item> \<open>url_Parse s\<close> is the pair \<^verbatim>\<open>url.Parse(s)\<close> returns: the pointer to the parsed URL
    (kept as its text; \<open>None\<close> is nil) and whether the error is non-nil;
  \<^item> \<open>ParseDuration s\<close> is the pair \<^verbatim>\<open>time.ParseDuration(s)\<close> returns: the duration and
    whether the error is non-nil;
  \<^item> \<open>rangeOrder es\<close> is the order in which a \<^verbatim>\<open>range\<close> loop visits a map whose entries
    are \<open>es\<close>: Go leaves it unspecified, so every theorem about a loop over a map is
    proved for every order.
\<close>

record golib =
  Sprint :: "val \<Rightarrow> string"
  DurationString :: "64 word \<Rightarrow> string"
  StringerString :: "val \<Rightarrow> string option"
  ErrorString :: "val \<Rightarrow> string option"
  FuncName :: "nat \<Rightarrow> string"
  url_Parse :: "string \<Rightarrow> string option \<times> bool"
  ParseDuration :: "string \<Rightarrow> 64 word \<times> bool"
  rangeOrder :: "(string \<times> val) list \<Rightarrow> (string \<times> val) list"

definition range_ok :: "golib \<Rightarrow> bool" where
  "range_ok L = (\<forall>es. distinct (map fst es) \<longrightarrow> mset (rangeOrder L es) = mset es)"

section \<open>The heap of field maps\<close>

text \<open>
  A \<^verbatim>\<open>map[string]interface{}\<close> is a reference: \<^verbatim>\<open>Core.fields\<close>, the argument of \<open>clone\<close>
  and the payload of a record may alias. The heap gives every allocated map its entries
  (an association list with distinct keys); \<open>nxt\<close> is the next free address. A map
  reference is an address, or \<open>None\<close> for the nil map.
\<close>

type_synonym addr = nat
type_synonym mapref = "addr option"

record heap =
  cells :: "addr \<Rightarrow> (string \<times> val) list"
  nxt :: addr

definition wf_heap :: "heap \<Rightarrow> bool" where
  "wf_heap h = (\<forall>a. a < nxt h \<longrightarrow> distinct (map fst (cells h a)))"

definition valid_ref :: "heap \<Rightarrow> mapref \<Rightarrow> bool" where
  "valid_ref h r = (case r of None \<Rightarrow> True | Some a \<Rightarrow> a < nxt h)"

text \<open>\<^verbatim>\<open>make(map[string]interface{})\<close>\<close>

definition make_map :: "heap \<Rightarrow> heap \<times> addr" where
  "make_map h = (h\<lparr>cells := (cells h)(nxt h := []), nxt := Suc (nxt h)\<rparr>, nxt h)"

text \<open>The entries of a map; ranging over the nil map visits nothing.\<close>

definition map_entries :: "heap \<Rightarrow> mapref \<Rightarrow> (string \<times> val) list" where
  "map_entries h r = (case r of None \<Rightarrow> [] | Some a \<Rightarrow> cells h a)"

text \<open>\<^verbatim>\<open>m[k] = v\<close> and \<^verbatim>\<open>delete(m, k)\<close> on an allocated map.\<close>

definition map_store :: "heap \<Rightarrow> addr \<Rightarrow> string \<Rightarrow> val \<Rightarrow> heap" where
  "map_store h a k v = h\<lparr>cells := (cells h)(a := AList.update k v (cells h a))\<rparr>"

definition map_delete :: "heap \<Rightarrow> addr \<Rightarrow> string \<Rightarrow> heap" where
  "map_delete h a k = h\<lparr>cells := (cells h)(a := AList.delete k (cells h a))\<rparr>"

section \<open>Conversion of an integer to a float\<close>

text \<open>
  Go's conversion \<^verbatim>\<open>float64(i)\<close> of an integer rounds to the nearest representable value,
  ties to even. \<open>float_of_int p bias w i\<close> is the bit pattern of the result in a format
  with \<open>p\<close> significand bits (the hidden one counted), the given exponent bias and \<open>w\<close>
  bits in all. For a 64-bit integer the exponent never leaves the normal range of either
  format.
\<close>

fun bit_len :: "nat \<Rightarrow> nat" where
  "bit_len n = (if n = 0 then 0 else Suc (bit_len (n div 2)))"

declare bit_len.simps [simp del]

definition float_of_int :: "nat \<Rightarrow> nat \<Rightarrow> nat \<Rightarrow> int \<Rightarrow> nat" where
  "float_of_int p bias w i =
     (if i = 0 then 0
      else
        let m = nat \<bar>i\<bar>;
            n = bit_len m;
            sh = n - p;
            q0 = m div 2 ^ sh;
            r = m mod 2 ^ sh;
            q1 = (if n \<le> p then m * 2 ^ (p - n)
                  else if 2 * r > 2 ^ sh \<or> (2 * r = 2 ^ sh \<and> odd q0) then q0 + 1
                  else q0);
            e = (if q1 = 2 ^ p then n else n - 1);
            q = (if q1 = 2 ^ p then 2 ^ (p - 1) else q1)
        in (if i < 0 then 2 ^ (w - 1) else 0) + (e + bias) * 2 ^ (p - 1) + (q - 2 ^ (p - 1)))"

definition float64_of_int64 :: "64 word \<Rightarrow> 64 word" where
  "float64_of_int64 x = of_nat (float_of_int 53 1023 64 (sint x))"

definition float32_of_int64 :: "64 word \<Rightarrow> 32 word" where
  "float32_of_int64 x = of_nat (float_of_int 24 127 32 (sint x))"

section \<open>clone\<close>

text \<open>
  A failed type assertion, a nil dereference and a call of \<^verbatim>\<open>Time.In(nil)\<close> panic: the
  function does not return, and the panic unwinds to its caller.
\<close>

datatype panic = TypeAssertion | NilDereference | MissingLocation

text \<open>
  The type assertions \<^verbatim>\<open>v.(string)\<close>, \<^verbatim>\<open>v.(*time.Location)\<close> and
  \<^verbatim>\<open>v.(*zapdriver.HTTPPayload)\<close>: the asserted value, or \<open>None\<close> when the dynamic type of
  \<open>v\<close> is another one (the single-value form of the assertion then panics).
\<close>

fun assert_string :: "val \<Rightarrow> string option" where
  "assert_string (VString s) = Some s"
| "assert_string _ = None"

fun assert_Location :: "val \<Rightarrow> string option option" where
  "assert_Location (VLocation l) = Some l"
| "assert_Location _ = None"

fun assert_HTTPPayload :: "val \<Rightarrow> HTTPPayload option option" where
  "assert_HTTPPayload (VHTTPPayload p) = Some p"
| "assert_HTTPPayload _ = None"

text \<open>
  The \<^verbatim>\<open>switch f.Type\<close> of \<open>clone\<close>: the value stored under \<open>f.Key\<close>, \<open>None\<close> for the
  \<^verbatim>\<open>continue\<close> of a skipped field. \<open>UnknownType\<close> and \<open>NamespaceType\<close> have no case of
  their own (both are commented out in the source) and fall to \<^verbatim>\<open>default\<close>.
\<close>

definition classify :: "golib \<Rightarrow> Field \<Rightarrow> panic + val option" where
  "classify L f =
     (case Type f of
        ArrayMarshalerType \<Rightarrow> Inr (Some (Interface f))
      | ObjectMarshalerType \<Rightarrow> Inr (Some (Interface f))
      | BinaryType \<Rightarrow> Inr (Some (Interface f))
      | BoolType \<Rightarrow> Inr (Some (VBool (Integer f = 1)))
      | ByteStringType \<Rightarrow> Inr (Some (VString (String f)))
      | Complex128Type \<Rightarrow> Inr (Some (VString (Sprint L (Interface f))))
      | Complex64Type \<Rightarrow> Inr (Some (VString (Sprint L (Interface f))))
      | DurationType \<Rightarrow> Inr (Some (VString (DurationString L (Integer f))))
      | Float64Type \<Rightarrow> Inr (Some (VFloat64 (float64_of_int64 (Integer f))))
      | Float32Type \<Rightarrow> Inr (Some (VFloat32 (float32_of_int64 (Integer f))))
      | Int64Type \<Rightarrow> Inr (Some (VInt64 (Integer f)))
      | Int32Type \<Rightarrow> Inr (Some (VInt32 (ucast (Integer f))))
      | Int16Type \<Rightarrow> Inr (Some (VInt16 (ucast (Integer f))))
      | Int8Type \<Rightarrow> Inr (Some (VInt8 (ucast (Integer f))))
      | StringType \<Rightarrow> Inr (Some (VString (String f)))
      | TimeType \<Rightarrow>
          (if Interface f = VNil then Inr (Some (VTime (Integer f) None))
           else (case assert_Location (Interface f) of
                   None \<Rightarrow> Inl TypeAssertion
                 | Some None \<Rightarrow> Inl MissingLocation
                 | Some (Some l) \<Rightarrow> Inr (Some (VTime (Integer f) (Some l)))))
      | Uint64Type \<Rightarrow> Inr (Some (VUint64 (Integer f)))
      | Uint32Type \<Rightarrow> Inr (Some (VUint32 (ucast (Integer f))))
      | Uint16Type \<Rightarrow> Inr (Some (VUint16 (ucast (Integer f))))
      | Uint8Type \<Rightarrow> Inr (Some (VUint8 (ucast (Integer f))))
      | UintptrType \<Rightarrow> Inr (Some (VUintptr (Integer f)))
      | ReflectType \<Rightarrow> Inr (Some (Interface f))
      | StringerType \<Rightarrow>
          (case StringerString L (Interface f) of
             None \<Rightarrow> Inl TypeAssertion
           | Some s \<Rightarrow> Inr (Some (VString s)))
      | ErrorType \<Rightarrow>
          (case ErrorString L (Interface f) of
             None \<Rightarrow> Inl TypeAssertion
           | Some s \<Rightarrow> Inr (Some (VString s)))
      | SkipType \<Rightarrow> Inr None
      | _ \<Rightarrow> Inr (Some (Interface f)))"

text \<open>The first loop of \<open>clone\<close>: \<^verbatim>\<open>for k, v := range orig { clone[k] = v }\<close>.\<close>

fun copy_loop :: "heap \<Rightarrow> addr \<Rightarrow> (string \<times> val) list \<Rightarrow> heap" where
  "copy_loop h c [] = h"
| "copy_loop h c ((k, v) # es) = copy_loop (map_store h c k v) c es"

text \<open>
  The second loop, over \<open>newFields\<close>. A panic leaves the loop with the heap as it is at
  that moment.
\<close>

fun fields_loop :: "golib \<Rightarrow> heap \<Rightarrow> addr \<Rightarrow> Field list \<Rightarrow> heap \<times> (panic + unit)" where
  "fields_loop L h c [] = (h, Inr ())"
| "fields_loop L h c (f # fs) =
     (case classify L f of
        Inl p \<Rightarrow> (h, Inl p)
      | Inr None \<Rightarrow> fields_loop L h c fs
      | Inr (Some v) \<Rightarrow> fields_loop L (map_store h c (Key f) v) c fs)"

definition clone :: "golib \<Rightarrow> heap \<Rightarrow> mapref \<Rightarrow> Field list \<Rightarrow> heap \<times> (panic + addr)" where
  "clone L h orig newFields =
     (let (h1, c) = make_map h;
          h2 = copy_loop h1 c (rangeOrder L (map_entries h1 orig))
      in case fields_loop L h2 c newFields of
           (h3, Inl p) \<Rightarrow> (h3, Inl p)
         | (h3, Inr _) \<Rightarrow> (h3, Inr c))"

section \<open>strconv.ParseInt\<close>

text \<open>
  \<^verbatim>\<open>strconv.ParseInt(s, 10, 64)\<close>, after the library's source. \<^verbatim>\<open>ParseUint\<close> reads the
  digits from the left; a byte that is no decimal digit is a syntax error with value 0; a
  value beyond 64 bits is a range error, returned with the largest \<^verbatim>\<open>uint64\<close> at the byte
  where it overflows. \<^verbatim>\<open>ParseInt\<close> takes the sign off, and returns, with a range error,
  the bound of \<^verbatim>\<open>int64\<close> on the side of the sign.
\<close>

datatype NumError = ErrSyntax | ErrRange

definition maxUint64 :: nat where
  "maxUint64 = 2 ^ 64 - 1"

definition is_digit :: "char \<Rightarrow> bool" where
  "is_digit c = (of_char (CHR ''0'') \<le> (of_char c :: nat) \<and> (of_char c :: nat) \<le> of_char (CHR ''9''))"

fun ParseUint_loop :: "nat \<Rightarrow> string \<Rightarrow> nat \<times> NumError option" where
  "ParseUint_loop n [] = (n, None)"
| "ParseUint_loop n (c # cs) =
     (if \<not> is_digit c then (0, Some ErrSyntax)
      else if n \<ge> maxUint64 div 10 + 1 then (maxUint64, Some ErrRange)
      else
        let n1 = n * 10 + (of_char c - of_char (CHR ''0''))
        in if n1 > maxUint64 then (maxUint64, Some ErrRange) else ParseUint_loop n1 cs)"

definition ParseUint :: "string \<Rightarrow> nat \<times> NumError option" where
  "ParseUint s = (if s = [] then (0, Some ErrSyntax) else ParseUint_loop 0 s)"

definition ParseInt :: "string \<Rightarrow> 64 word \<times> NumError option" where
  "ParseInt s0 =
     (if s0 = [] then (0, Some ErrSyntax)
      else
        let neg = (hd s0 = CHR ''-'');
            s = (if hd s0 = CHR ''+'' \<or> hd s0 = CHR ''-'' then tl s0 else s0);
            (un, err) = ParseUint s;
            cutoff = (2 :: nat) ^ 63
        in if err = Some ErrSyntax then (0, Some ErrSyntax)
           else if \<not> neg \<and> un \<ge> cutoff then (of_nat (cutoff - 1), Some ErrRange)
           else if neg \<and> un > cutoff then (- of_nat cutoff, Some ErrRange)
           else (if neg then - of_nat un else of_nat un, None))"

section \<open>Levels, severities, entries and the core\<close>

text \<open>\<^verbatim>\<open>zapcore.Level\<close> is an \<^verbatim>\<open>int8\<close>; no arithmetic of the package leaves its range.\<close>

type_synonym Level = int

definition DebugLevel :: Level where "DebugLevel = -1"
definition InfoLevel :: Level where "InfoLevel = 0"
definition WarnLevel :: Level where "WarnLevel = 1"
definition ErrorLevel :: Level where "ErrorLevel = 2"
definition DPanicLevel :: Level where "DPanicLevel = 3"
definition PanicLevel :: Level where "PanicLevel = 4"
definition FatalLevel :: Level where "FatalLevel = 5"

lemmas Level_defs =
  DebugLevel_def InfoLevel_def WarnLevel_def ErrorLevel_def DPanicLevel_def PanicLevel_def
  FatalLevel_def

text \<open>\<^verbatim>\<open>logging.Severity\<close> of the Google Cloud client, an \<^verbatim>\<open>int\<close>.\<close>

type_synonym Severity = int

definition gcl_Default :: Severity where "gcl_Default = 0"
definition gcl_Debug :: Severity where "gcl_Debug = 100"
definition gcl_Info :: Severity where "gcl_Info = 200"
definition gcl_Notice :: Severity where "gcl_Notice = 300"
definition gcl_Warning :: Severity where "gcl_Warning = 400"
definition gcl_Error :: Severity where "gcl_Error = 500"
definition gcl_Critical :: Severity where "gcl_Critical = 600"
definition gcl_Alert :: Severity where "gcl_Alert = 700"
definition gcl_Emergency :: Severity where "gcl_Emergency = 800"

lemmas Severity_defs =
  gcl_Default_def gcl_Debug_def gcl_Info_def gcl_Notice_def gcl_Warning_def gcl_Error_def
  gcl_Critical_def gcl_Alert_def gcl_Emergency_def

definition DefaultSeverityMapping :: "Level \<rightharpoonup> Severity" where
  "DefaultSeverityMapping =
     [DebugLevel \<mapsto> gcl_Debug,
      InfoLevel \<mapsto> gcl_Info,
      WarnLevel \<mapsto> gcl_Warning,
      ErrorLevel \<mapsto> gcl_Error,
      DPanicLevel \<mapsto> gcl_Critical,
      PanicLevel \<mapsto> gcl_Critical,
      FatalLevel \<mapsto> gcl_Critical]"

text \<open>\<^verbatim>\<open>zapcore.EntryCaller\<close> and \<^verbatim>\<open>zapcore.Entry\<close>; a \<^verbatim>\<open>time.Time\<close> is kept as a number.\<close>

record EntryCaller =
  Defined :: bool
  PC :: nat
  File :: string
  Line :: int

record Entry =
  Level :: Level
  Time :: int
  LoggerName :: string
  Message :: string
  Caller :: EntryCaller
  Stack :: string

text \<open>
  The entry of the Google Cloud client, with the parts \<open>Write\<close> sets. \<open>Payload\<close> is the
  reference to the payload map. \<open>Labels\<close> is a \<^verbatim>\<open>map[string]string\<close> that no one else
  holds: \<open>None\<close> is the nil map.
\<close>

record http_Request =
  Method :: string
  URL :: "string option"
  Header :: "(string \<times> string list) list"

record HTTPRequest =
  Request :: http_Request
  RequestSize :: "64 word"
  Status :: int
  ResponseSize :: "64 word"
  Latency :: "64 word"
  LocalIP :: string
  RemoteIP :: string
  CacheHit :: bool
  CacheValidatedWithOriginServer :: bool

record LogEntrySourceLocation =
  File :: string
  Line :: int
  Function :: string

record gcl_Entry =
  Timestamp :: int
  Severity :: Severity
  Payload :: addr
  Labels :: "(string \<times> string) list option"
  InsertID :: string
  HTTPRequest :: "HTTPRequest option"
  LogName :: string
  SourceLocation :: "LogEntrySourceLocation option"

text \<open>
  \<open>Core\<close>. \<open>Logger\<close> is an interface value: \<open>None\<close> is nil, \<open>Some n\<close> the logger \<open>n\<close>. A
  nil \<open>SeverityMapping\<close> has no entry, as the empty map. The field \<^verbatim>\<open>fields\<close> is \<open>fields'\<close>
  here.
\<close>

record Core =
  Logger :: "nat option"
  SeverityMapping :: "Level \<rightharpoonup> Severity"
  MinLevel :: Level
  fields' :: mapref

section \<open>Enabled, With and Write\<close>

definition Enabled :: "Core \<Rightarrow> Level \<Rightarrow> bool" where
  "Enabled c l = (l \<ge> MinLevel c)"

definition With :: "golib \<Rightarrow> heap \<Rightarrow> Core \<Rightarrow> Field list \<Rightarrow> heap \<times> (panic + Core)" where
  "With L h c newFields =
     (case clone L h (fields' c) newFields of
        (h1, Inl p) \<Rightarrow> (h1, Inl p)
      | (h1, Inr m) \<Rightarrow>
          (h1, Inr \<lparr>Logger = Logger c, SeverityMapping = SeverityMapping c,
                     MinLevel = MinLevel c, fields' = Some m\<rparr>))"

definition InsertIDKey :: string where
  "InsertIDKey = ''logging.googleapis.com/insertId''"

text \<open>\<^verbatim>\<open>strings.HasPrefix\<close>\<close>

definition HasPrefix :: "string \<Rightarrow> string \<Rightarrow> bool" where
  "HasPrefix s p = (length s \<ge> length p \<and> take (length p) s = p)"

text \<open>
  The \<^verbatim>\<open>gcl.HTTPRequest\<close> that \<open>Write\<close> builds from the payload \<^verbatim>\<open>_v\<close>. The errors of
  the four calls of the parsers are dropped (\<^verbatim>\<open>_\<close>). \<^verbatim>\<open>Header.Set\<close> stores a one-element list under a
  key already in canonical form.
\<close>

definition decode_httpRequest :: "golib \<Rightarrow> HTTPPayload \<Rightarrow> HTTPRequest" where
  "decode_httpRequest L v =
     (let req = \<lparr>Method = RequestMethod v, URL = None, Header = []\<rparr>;
          req = req\<lparr>URL := fst (url_Parse L (RequestURL v))\<rparr>;
          req = req\<lparr>Header := AList.update ''User-Agent'' [UserAgent v] (Header req)\<rparr>;
          req = req\<lparr>Header := AList.update ''Referer'' [Referer v] (Header req)\<rparr>;
          reqSize = fst (ParseInt (HTTPPayload.RequestSize v));
          respSize = fst (ParseInt (HTTPPayload.ResponseSize v));
          latency = fst (ParseDuration L (HTTPPayload.Latency v))
      in \<lparr>Request = req,
          RequestSize = reqSize,
          Status = HTTPPayload.Status v,
          ResponseSize = respSize,
          Latency = latency,
          LocalIP = ServerIP v,
          RemoteIP = HTTPPayload.RemoteIP v,
          CacheHit = HTTPPayload.CacheHit v,
          CacheValidatedWithOriginServer = HTTPPayload.CacheValidatedWithOriginServer v\<rparr>)"

text \<open>
  The body of \<^verbatim>\<open>for k, v := range payload\<close> in \<open>Write\<close>, on the heap and the entry under
  construction. \<^verbatim>\<open>v.(string)\<close> is evaluated after the labels map is made, before the
  assignment and the delete.
\<close>

definition range_body ::
  "golib \<Rightarrow> addr \<Rightarrow> string \<Rightarrow> val \<Rightarrow> heap \<Rightarrow> gcl_Entry \<Rightarrow> (heap \<times> gcl_Entry) \<times> (panic + unit)" where
  "range_body L payload k v h entry =
     (if HasPrefix k ''labels.'' then
        (let entry1 = (if length (case Labels entry of None \<Rightarrow> [] | Some m \<Rightarrow> m) = 0
                       then entry\<lparr>Labels := Some []\<rparr> else entry);
             new_k = drop 7 k
         in case assert_string v of
              None \<Rightarrow> ((h, entry1), Inl TypeAssertion)
            | Some s \<Rightarrow>
                ((map_delete h payload k,
                  entry1\<lparr>Labels := Some (AList.update new_k s (the (Labels entry1)))\<rparr>),
                 Inr ()))
      else if k = ''httpRequest'' then
        (case assert_HTTPPayload v of
           None \<Rightarrow> ((h, entry), Inl TypeAssertion)
         | Some None \<Rightarrow> ((h, entry), Inl NilDereference)
         | Some (Some pl) \<Rightarrow>
             ((map_delete h payload k,
               entry\<lparr>HTTPRequest := Some (decode_httpRequest L pl)\<rparr>),
              Inr ()))
      else ((h, entry), Inr ()))"

text \<open>
  The loop visits the entries the payload has when it starts, in the order Go picks. The
  body deletes no key but the one it is visiting and stores none, so every entry is visited
  once, with the value it had at the start.
\<close>

fun range_loop ::
  "golib \<Rightarrow> addr \<Rightarrow> (string \<times> val) list \<Rightarrow> heap \<Rightarrow> gcl_Entry \<Rightarrow> (heap \<times> gcl_Entry) \<times> (panic + unit)" where
  "range_loop L payload [] h entry = ((h, entry), Inr ())"
| "range_loop L payload ((k, v) # es) h entry =
     (case range_body L payload k v h entry of
        (s, Inl x) \<Rightarrow> (s, Inl x)
      | ((h', entry'), Inr _) \<Rightarrow> range_loop L payload es h' entry')"

text \<open>
  \<open>Write\<close> returns the heap, the entries it has passed to \<^verbatim>\<open>c.Logger.Log\<close>, and either the
  panic that ended it or the \<^verbatim>\<open>error\<close> it returned (\<open>None\<close> is nil). Calling \<^verbatim>\<open>Log\<close> on a
  nil \<open>Logger\<close> panics.
\<close>

datatype error = Error string

definition Write ::
  "golib \<Rightarrow> heap \<Rightarrow> Core \<Rightarrow> Entry \<Rightarrow> Field list \<Rightarrow> (heap \<times> gcl_Entry list) \<times> (panic + error option)" where
  "Write L h c ze newFields =
     (let severity = (case SeverityMapping c (Level ze) of
                        Some s \<Rightarrow> s
                      | None \<Rightarrow> gcl_Default)
      in case clone L h (fields' c) newFields of
           (h1, Inl x) \<Rightarrow> ((h1, []), Inl x)
         | (h1, Inr payload) \<Rightarrow>
             (let h2 = (if Stack ze \<noteq> [] then map_store h1 payload ''stack'' (VString (Stack ze))
                        else h1);
                  h3 = map_store h2 payload ''message'' (VString (Message ze));
                  entry = \<lparr>Timestamp = Time ze, Severity = severity, Payload = payload,
                           Labels = None, InsertID = [], HTTPRequest = None, LogName = [],
                           SourceLocation = None\<rparr>;
                  entry = (if LoggerName ze \<noteq> [] then entry\<lparr>LogName := LoggerName ze\<rparr>
                           else entry)
              in case range_loop L payload (rangeOrder L (cells h3 payload)) h3 entry of
                   ((h4, entry), Inl x) \<Rightarrow> ((h4, []), Inl x)
                 | ((h4, entry), Inr _) \<Rightarrow>
                     (let insertID = (case map_of (cells h4 payload) InsertIDKey of
                                        None \<Rightarrow> None
                                      | Some v \<Rightarrow> assert_string v);
                          entry = (case insertID of
                                     Some i \<Rightarrow> if i \<noteq> [] then entry\<lparr>InsertID := i\<rparr> else entry
                                   | None \<Rightarrow> entry);
                          h5 = map_delete h4 payload InsertIDKey;
                          entry = (if Defined (Caller ze)
                                   then entry\<lparr>SourceLocation :=
                                          Some \<lparr>File = EntryCaller.File (Caller ze),
                                                Line = EntryCaller.Line (Caller ze),
                                                Function = FuncName L (PC (Caller ze))\<rparr>\<rparr>
                                   else entry)
                      in case Logger c of
                           None \<Rightarrow> ((h5, []), Inl NilDereference)
                         | Some _ \<Rightarrow> ((h5, [entry]), Inr None))))"

section \<open>Check and Tee\<close>

text \<open>
  A \<^verbatim>\<open>zapcore.CheckedEntry\<close> is kept as the list of the cores of this package that were added
  to it; \<^verbatim>\<open>ce.AddCore(e, c)\<close> appends \<open>c\<close>.
\<close>

definition Check :: "Core \<Rightarrow> Entry \<Rightarrow> Core list \<Rightarrow> Core list" where
  "Check c e ce = (if Enabled c (Level e) then ce @ [c] else ce)"

text \<open>
  The loop of \<open>Tee\<close> over the levels from \<open>DebugLevel\<close> to \<open>FatalLevel\<close>; \<open>m\<close> is
  \<^verbatim>\<open>gc.MinLevel\<close>, which the loop sets once, at the \<^verbatim>\<open>break\<close>.
\<close>

function Tee_loop :: "(Level \<Rightarrow> bool) \<Rightarrow> Level \<Rightarrow> Level \<Rightarrow> Level" where
  "Tee_loop zc l m = (if l \<le> FatalLevel then (if zc l then l else Tee_loop zc (l + 1) m) else m)"
  by pat_completeness auto
termination
  by (relation "measure (\<lambda>(zc, l, m). nat (FatalLevel + 1 - l))") auto

declare Tee_loop.simps [simp del]

text \<open>
  The base core \<^verbatim>\<open>zc\<close> is any \<^verbatim>\<open>zapcore.Core\<close>: \<open>Tee\<close> calls its \<^verbatim>\<open>Enabled\<close> method only,
  which is what \<open>zc\<close> is here. \<open>logger\<close> is the logger that \<^verbatim>\<open>client.Logger(gclLogID)\<close>
  returns. The result is the pair that \<^verbatim>\<open>zapcore.NewTee\<close> holds. The \<open>MinLevel\<close> of a new
  \<open>Core\<close> is the zero value, \<open>InfoLevel\<close>.
\<close>

definition Tee :: "(Level \<Rightarrow> bool) \<Rightarrow> nat \<Rightarrow> (Level \<Rightarrow> bool) \<times> Core" where
  "Tee zc logger =
     (let gc = \<lparr>Logger = Some logger, SeverityMapping = DefaultSeverityMapping,
                MinLevel = 0, fields' = None\<rparr>;
          gc = gc\<lparr>MinLevel := Tee_loop zc DebugLevel (MinLevel gc)\<rparr>
      in (zc, gc))"

text \<open>
  \<^verbatim>\<open>Enabled\<close> of the core that \<^verbatim>\<open>zapcore.NewTee\<close> returns, after the library's source: it
  asks each child in turn and is true at the first that is enabled.
\<close>

definition NewTee_Enabled :: "(Level \<Rightarrow> bool) \<times> Core \<Rightarrow> Level \<Rightarrow> bool" where
  "NewTee_Enabled mc l = (fst mc l \<or> Enabled (snd mc) l)"

section \<open>Fields built by the zap library\<close>

text \<open>
  The constructors of \<^verbatim>\<open>go.uber.org/zap\<close> used below, after the library's source.
  A signed integer is widened to the \<^verbatim>\<open>int64\<close> slot with its sign, an unsigned one with
  zeros; a float is stored as its bits (\<^verbatim>\<open>math.Float64bits\<close>, \<^verbatim>\<open>math.Float32bits\<close>).
\<close>

definition zap_Field :: "string \<Rightarrow> FieldType \<Rightarrow> 64 word \<Rightarrow> string \<Rightarrow> Field" where
  "zap_Field key t i s = \<lparr>Key = key, Type = t, Integer = i, String = s, Interface = VNil\<rparr>"

definition zap_String :: "string \<Rightarrow> string \<Rightarrow> Field" where
  "zap_String key v = zap_Field key StringType 0 v"

definition zap_Bool :: "string \<Rightarrow> bool \<Rightarrow> Field" where
  "zap_Bool key v = zap_Field key BoolType (if v then 1 else 0) []"

definition zap_Int64 :: "string \<Rightarrow> 64 word \<Rightarrow> Field" where
  "zap_Int64 key v = zap_Field key Int64Type v []"

definition zap_Int32 :: "string \<Rightarrow> 32 word \<Rightarrow> Field" where
  "zap_Int32 key v = zap_Field key Int32Type (scast v) []"

definition zap_Int16 :: "string \<Rightarrow> 16 word \<Rightarrow> Field" where
  "zap_Int16 key v = zap_Field key Int16Type (scast v) []"

definition zap_Int8 :: "string \<Rightarrow> 8 word \<Rightarrow> Field" where
  "zap_Int8 key v = zap_Field key Int8Type (scast v) []"

definition zap_Uint64 :: "string \<Rightarrow> 64 word \<Rightarrow> Field" where
  "zap_Uint64 key v = zap_Field key Uint64Type v []"

definition zap_Uint32 :: "string \<Rightarrow> 32 word \<Rightarrow> Field" where
  "zap_Uint32 key v = zap_Field key Uint32Type (ucast v) []"

definition zap_Uint16 :: "string \<Rightarrow> 16 word \<Rightarrow> Field" where
  "zap_Uint16 key v = zap_Field key Uint16Type (ucast v) []"

definition zap_Uint8 :: "string \<Rightarrow> 8 word \<Rightarrow> Field" where
  "zap_Uint8 key v = zap_Field key Uint8Type (ucast v) []"

definition zap_Uintptr :: "string \<Rightarrow> 64 word \<Rightarrow> Field" where
  "zap_Uintptr key v = zap_Field key UintptrType v []"

definition zap_Float64 :: "string \<Rightarrow> 64 word \<Rightarrow> Field" where
  "zap_Float64 key bits = zap_Field key Float64Type bits []"

definition zap_Float32 :: "string \<Rightarrow> 32 word \<Rightarrow> Field" where
  "zap_Float32 key bits = zap_Field key Float32Type (ucast bits) []"

text \<open>
  \<^verbatim>\<open>zapdriver.HTTP(req)\<close> is \<^verbatim>\<open>zap.Object("httpRequest", req)\<close>: an object field whose
  interface slot holds the pointer to the payload.
\<close>

definition zapdriver_HTTP :: "HTTPPayload \<Rightarrow> Field" where
  "zapdriver_HTTP req = \<lparr>Key = ''httpRequest'', Type = ObjectMarshalerType, Integer = 0,
                          String = [], Interface = VHTTPPayload (Some req)\<rparr>"

section \<open>Trace context\<close>

text \<open>
  \<^verbatim>\<open>reCloudTraceContext.FindStringSubmatch(s)\<close>, the three groups. The expression
  \<^verbatim>\<open>([a-f\d]+)?(?:/([a-f\d]+))?(?:;o=(\d))?\<close> matches the empty string, so the leftmost match
  starts at the first byte; each part is optional and greedy, and what follows it can
  always match, so each part takes the longest run it can and is never given back. A group
  that takes no part in the match is the empty string.
\<close>

definition is_hex :: "char \<Rightarrow> bool" where
  "is_hex c = (c \<in> set ''abcdef'' \<or> is_digit c)"

definition FindStringSubmatch :: "string \<Rightarrow> string \<times> string \<times> string" where
  "FindStringSubmatch s =
     (let g1 = takeWhile is_hex s;
          r1 = dropWhile is_hex s;
          g2 = (case r1 of
                  c # r \<Rightarrow> if c = CHR ''/'' then takeWhile is_hex r else []
                | [] \<Rightarrow> []);
          r2 = (if g2 = [] then r1 else dropWhile is_hex (tl r1));
          g3 = (case r2 of
                  a # b # c # d # r \<Rightarrow>
                    if [a, b, c] = '';o='' \<and> is_digit d then [d] else []
                | _ \<Rightarrow> [])
      in (g1, g2, g3))"

definition deconstructXCloudTraceContext :: "string \<Rightarrow> string \<times> string \<times> bool" where
  "deconstructXCloudTraceContext s =
     (let (m1, m2, m3) = FindStringSubmatch s;
          traceID = m1;
          spanID = m2;
          traceSampled = (m3 = ''1'');
          spanID = (if spanID = ''0'' then [] else spanID)
      in (traceID, spanID, traceSampled))"

definition traceKey :: string where
  "traceKey = ''logging.googleapis.com/trace''"

definition spanKey :: string where
  "spanKey = ''logging.googleapis.com/spanId''"

definition traceSampledKey :: string where
  "traceSampledKey = ''logging.googleapis.com/trace_sampled''"

definition addCloudLoggingFields ::
  "string \<Rightarrow> string \<Rightarrow> bool \<Rightarrow> string \<Rightarrow> Field \<times> Field \<times> Field" where
  "addCloudLoggingFields trace spanId sampled projectName =
     (zap_String traceKey (''projects/'' @ projectName @ ''/traces/'' @ trace),
      zap_String spanKey spanId,
      zap_Bool traceSampledKey sampled)"

section \<open>What clone leaves in the map\<close>

text \<open>
  \<open>field_values L fs k\<close> is the value that the last field of \<open>fs\<close> with key \<open>k\<close> that is
  not skipped gets from the switch of \<open>clone\<close>; \<open>no_panic L fs\<close> says that no field of
  \<open>fs\<close> makes the switch panic; \<open>field_keys fs\<close> are the keys of the fields of \<open>fs\<close>
  that are no skip markers. \<open>clone_lookup\<close> is what the caller of \<open>clone\<close> reads under a
  key of the map it gets back.
\<close>

fun field_values :: "golib \<Rightarrow> Field list \<Rightarrow> (string \<rightharpoonup> val)" where
  "field_values L [] = Map.empty"
| "field_values L (f # fs) =
     (case classify L f of
        Inr (Some v) \<Rightarrow> [Key f \<mapsto> v] ++ field_values L fs
      | _ \<Rightarrow> field_values L fs)"

definition no_panic :: "golib \<Rightarrow> Field list \<Rightarrow> bool" where
  "no_panic L fs = list_all (\<lambda>f. case classify L f of Inl _ \<Rightarrow> False | Inr _ \<Rightarrow> True) fs"

definition field_keys :: "Field list \<Rightarrow> string set" where
  "field_keys fs = set (map Key (filter (\<lambda>f. Type f \<noteq> SkipType) fs))"

definition clone_lookup ::
  "golib \<Rightarrow> heap \<Rightarrow> mapref \<Rightarrow> Field list \<Rightarrow> string \<Rightarrow> panic + val option" where
  "clone_lookup L h orig newFields k =
     (case clone L h orig newFields of
        (h', Inl p) \<Rightarrow> Inl p
      | (h', Inr c) \<Rightarrow> Inr (map_of (cells h' c) k))"

section \<open>The parts of Write\<close>

text \<open>
  Names for what the proofs about \<open>Write\<close> speak of: the labels of an entry as a map; the
  keys that the loop moves out of the payload; the entries at which the body of the loop
  does not panic (a label holding a string, an \<^verbatim>\<open>httpRequest\<close> holding a payload that is
  not nil, any other key); the heap after the stores of \<^verbatim>\<open>stack\<close> and \<^verbatim>\<open>message\<close>; the
  entry before the loop; and the entry after the insert id and the source location are
  set.
\<close>

definition labels_of :: "gcl_Entry \<Rightarrow> (string \<rightharpoonup> string)" where
  "labels_of e = (case Labels e of None \<Rightarrow> Map.empty | Some m \<Rightarrow> map_of m)"

definition special_key :: "string \<Rightarrow> bool" where
  "special_key k = (HasPrefix k ''labels.'' \<or> k = ''httpRequest'')"

definition entry_ok :: "string \<Rightarrow> val \<Rightarrow> bool" where
  "entry_ok k v =
     (if HasPrefix k ''labels.'' then assert_string v \<noteq> None
      else if k = ''httpRequest''
        then (case assert_HTTPPayload v of Some (Some pl) \<Rightarrow> True | _ \<Rightarrow> False)
      else True)"

definition payload_ok :: "(string \<times> val) list \<Rightarrow> bool" where
  "payload_ok es = list_all (\<lambda>(k, v). entry_ok k v) es"

definition stack_message :: "heap \<Rightarrow> addr \<Rightarrow> Entry \<Rightarrow> heap" where
  "stack_message h1 p ze =
     map_store (if Stack ze \<noteq> [] then map_store h1 p ''stack'' (VString (Stack ze)) else h1)
       p ''message'' (VString (Message ze))"

definition initial_entry :: "Core \<Rightarrow> Entry \<Rightarrow> addr \<Rightarrow> gcl_Entry" where
  "initial_entry c ze p =
     \<lparr>Timestamp = Time ze,
      Severity = (case SeverityMapping c (Level ze) of Some s \<Rightarrow> s | None \<Rightarrow> gcl_Default),
      Payload = p, Labels = None, InsertID = [], HTTPRequest = None,
      LogName = LoggerName ze, SourceLocation = None\<rparr>"

definition final_entry :: "golib \<Rightarrow> Entry \<Rightarrow> heap \<Rightarrow> addr \<Rightarrow> gcl_Entry \<Rightarrow> gcl_Entry" where
  "final_entry L ze h4 p e =
     e\<lparr>InsertID := (case map_of (cells h4 p) InsertIDKey of
                       None \<Rightarrow> InsertID e
                     | Some v \<Rightarrow> (case assert_string v of
                                    None \<Rightarrow> InsertID e
                                  | Some i \<Rightarrow> if i \<noteq> [] then i else InsertID e)),
       SourceLocation := (if Defined (Caller ze)
                          then Some \<lparr>File = EntryCaller.File (Caller ze),
                                     Line = EntryCaller.Line (Caller ze),
                                     Function = FuncName L (PC (Caller ze))\<rparr>
                          else SourceLocation e)\<rparr>"

section \<open>A concrete library and concrete heaps\<close>

text \<open>
  \<open>lib0\<close> visits a map in the order of its entries and fails every parse; \<open>heap0\<close> is
  the heap with no map, \<open>heap1\<close> the heap whose one map holds two fields; \<open>core0\<close> is a
  core with a logger, the default severities and no fields; \<open>entry0\<close> is a warning with
  no stack trace and no caller; \<open>payload0\<close> is an HTTP payload whose request size is one
  above the largest \<^verbatim>\<open>int64\<close> and whose URL, response size and latency do not parse.
\<close>

definition lib0 :: golib where
  "lib0 = \<lparr>Sprint = (\<lambda>v. []), DurationString = (\<lambda>n. []), StringerString = (\<lambda>v. None),
            ErrorString = (\<lambda>v. None), FuncName = (\<lambda>pc. []), url_Parse = (\<lambda>s. (None, True)),
            ParseDuration = (\<lambda>s. (0, True)), rangeOrder = (\<lambda>es. es)\<rparr>"

definition heap0 :: heap where
  "heap0 = \<lparr>cells = (\<lambda>a. []), nxt = 0\<rparr>"

definition heap1 :: heap where
  "heap1 = \<lparr>cells = (\<lambda>a. if a = 0 then [(''svc'', VString ''api''), (''env'', VString ''dev'')]
                           else []),
             nxt = 1\<rparr>"

definition core0 :: Core where
  "core0 = \<lparr>Logger = Some 0, SeverityMapping = DefaultSeverityMapping, MinLevel = InfoLevel,
             fields' = None\<rparr>"

definition entry0 :: Entry where
  "entry0 = \<lparr>Level = WarnLevel, Time = 0, LoggerName = ''test'', Message = ''hello'',
              Caller = \<lparr>Defined = False, PC = 0, File = [], Line = 0\<rparr>, Stack = []\<rparr>"

definition payload0 :: HTTPPayload where
  "payload0 = \<lparr>RequestMethod = ''GET'', RequestURL = ''%zz'',
                RequestSize = ''9223372036854775808'', Status = 200, ResponseSize = ''12x'',
                UserAgent = ''curl'', RemoteIP = ''10.0.0.1'', ServerIP = ''10.0.0.2'',
                Referer = [], Latency = ''fast'', CacheLookup = False, CacheHit = False,
                CacheValidatedWithOriginServer = False, Protocol = ''HTTP/1.1''\<rparr>"

section \<open>Lemmas on the heap and on clone\<close>

lemma nxt_map_store [simp]: "nxt (map_store h a k v) = nxt h"
  by (simp add: map_store_def)

lemma nxt_map_delete [simp]: "nxt (map_delete h a k) = nxt h"
  by (simp add: map_delete_def)

lemma cells_map_store_same: "cells (map_store h a k v) a = AList.update k v (cells h a)"
  by (simp add: map_store_def)

lemma cells_map_store_other: "b \<noteq> a \<Longrightarrow> cells (map_store h a k v) b = cells h b"
  by (simp add: map_store_def)

lemma cells_map_delete_same: "cells (map_delete h a k) a = AList.delete k (cells h a)"
  by (simp add: map_delete_def)

lemma cells_map_delete_other: "b \<noteq> a \<Longrightarrow> cells (map_delete h a k) b = cells h b"
  by (simp add: map_delete_def)

lemma map_of_map_store:
  "map_of (cells (map_store h a k v) a) = (map_of (cells h a))(k \<mapsto> v)"
  by (simp add: map_store_def update_conv')

lemma map_of_map_delete:
  "map_of (cells (map_delete h a k) a) = (map_of (cells h a))(k := None)"
  by (simp add: map_delete_def delete_conv')

subsection \<open>The loops of clone\<close>

lemma nxt_copy_loop [simp]: "nxt (copy_loop h c es) = nxt h"
  by (induction h c es rule: copy_loop.induct) simp_all

lemma cells_copy_loop_other: "a \<noteq> c \<Longrightarrow> cells (copy_loop h c es) a = cells h a"
  by (induction h c es rule: copy_loop.induct) (simp_all add: cells_map_store_other)

lemma map_of_copy_loop:
  "map_of (cells (copy_loop h c es) c) = map_of (cells h c) ++ map_of (rev es)"
proof (induction h c es rule: copy_loop.induct)
  case (1 h c)
  then show ?case by simp
next
  case (2 h c k v es)
  have "(map_of (cells h c))(k \<mapsto> v) ++ map_of (rev es)
          = map_of (cells h c) ++ (map_of [(k, v)] ++ map_of (rev es))"
    by (auto simp: map_add_def fun_eq_iff split: option.splits)
  moreover have "map_of (rev ((k, v) # es)) = map_of [(k, v)] ++ map_of (rev es)"
    by simp
  ultimately show ?case
    using 2 by (simp only: copy_loop.simps map_of_map_store)
qed

lemma distinct_copy_loop:
  "distinct (map fst (cells h c)) \<Longrightarrow> distinct (map fst (cells (copy_loop h c es) c))"
  by (induction h c es rule: copy_loop.induct) (simp_all add: cells_map_store_same distinct_update)

lemma nxt_fields_loop [simp]: "nxt (fst (fields_loop L h c fs)) = nxt h"
  by (induction L h c fs rule: fields_loop.induct) (simp_all split: sum.splits option.splits)

lemma cells_fields_loop_other:
  "a \<noteq> c \<Longrightarrow> cells (fst (fields_loop L h c fs)) a = cells h a"
  by (induction L h c fs rule: fields_loop.induct)
    (simp_all add: cells_map_store_other split: sum.splits option.splits)

lemma distinct_fields_loop:
  "distinct (map fst (cells h c)) \<Longrightarrow>
   distinct (map fst (cells (fst (fields_loop L h c fs)) c))"
  by (induction L h c fs rule: fields_loop.induct)
    (simp_all add: cells_map_store_same distinct_update split: sum.splits option.splits)

lemma fields_loop_ok:
  "no_panic L fs \<Longrightarrow>
   snd (fields_loop L h c fs) = Inr () \<and>
   map_of (cells (fst (fields_loop L h c fs)) c) = map_of (cells h c) ++ field_values L fs"
proof (induction L h c fs rule: fields_loop.induct)
  case (1 L h c)
  then show ?case by simp
next
  case (2 L h c f fs)
  from "2.prems" obtain r where r: "classify L f = Inr r" and np: "no_panic L fs"
    by (auto simp: no_panic_def split: sum.splits)
  show ?case
  proof (cases r)
    case None
    with r np 2 show ?thesis by simp
  next
    case (Some v)
    have "(map_of (cells h c))(Key f \<mapsto> v) ++ field_values L fs
            = map_of (cells h c) ++ ([Key f \<mapsto> v] ++ field_values L fs)"
      by (auto simp: map_add_def fun_eq_iff split: option.splits)
    moreover have "snd (fields_loop L (map_store h c (Key f) v) c fs) = Inr () \<and>
        map_of (cells (fst (fields_loop L (map_store h c (Key f) v) c fs)) c)
          = map_of (cells (map_store h c (Key f) v) c) ++ field_values L fs"
      using "2.IH"(2)[OF r Some np] .
    ultimately show ?thesis
      using Some r by (simp only: fields_loop.simps field_values.simps map_of_map_store
          sum.case option.case)
  qed
qed

lemma fields_loop_panic:
  "\<not> no_panic L fs \<Longrightarrow> \<exists>p. snd (fields_loop L h c fs) = Inl p"
  by (induction L h c fs rule: fields_loop.induct)
    (auto simp: no_panic_def split: sum.splits option.splits)

subsection \<open>clone\<close>

lemma clone_heap:
  "nxt (fst (clone L h orig fs)) = Suc (nxt h) \<and>
   (\<forall>a. a \<noteq> nxt h \<longrightarrow> cells (fst (clone L h orig fs)) a = cells h a) \<and>
   distinct (map fst (cells (fst (clone L h orig fs)) (nxt h)))"
proof -
  obtain h1 c where mk: "make_map h = (h1, c)" by (cases "make_map h")
  then have c: "c = nxt h" and n1: "nxt h1 = Suc (nxt h)"
    and c1: "\<And>a. a \<noteq> nxt h \<Longrightarrow> cells h1 a = cells h a" and e1: "cells h1 c = []"
    by (auto simp: make_map_def)
  define h2 where "h2 = copy_loop h1 c (rangeOrder L (map_entries h1 orig))"
  have n2: "nxt h2 = Suc (nxt h)" and c2: "\<And>a. a \<noteq> nxt h \<Longrightarrow> cells h2 a = cells h a"
    and d2: "distinct (map fst (cells h2 c))"
    using n1 c1 c e1 by (simp_all add: h2_def cells_copy_loop_other distinct_copy_loop)
  have fst_clone: "fst (clone L h orig fs) = fst (fields_loop L h2 c fs)"
    by (simp add: clone_def mk h2_def split: prod.splits sum.splits)
  show ?thesis
    using n2 c2 d2 c by (simp add: fst_clone cells_fields_loop_other distinct_fields_loop)
qed

lemma clone_result:
  "snd (clone L h orig fs) = Inr c \<Longrightarrow> c = nxt h"
  by (auto simp: clone_def make_map_def split: prod.splits sum.splits)

lemma clone_cases:
  "(\<exists>h' p. clone L h orig fs = (h', Inl p)) \<or> (\<exists>h'. clone L h orig fs = (h', Inr (nxt h)))"
  by (cases "clone L h orig fs") (auto simp: clone_def make_map_def split: prod.splits sum.splits)

lemma range_ok_map_of:
  assumes "range_ok L" "distinct (map fst es)"
  shows "map_of (rev (rangeOrder L es)) = map_of es"
proof -
  have m: "mset (rangeOrder L es) = mset es"
    using assms by (simp add: range_ok_def)
  then have "mset (map fst (rangeOrder L es)) = mset (map fst es)"
    by (metis mset_map)
  then have d: "distinct (map fst (rangeOrder L es))"
    using assms(2) by (metis distinct_count_atmost_1 set_mset_mset)
  have s: "set (rangeOrder L es) = set es"
    using m by (metis set_mset_mset)
  have "map_of (rev (rangeOrder L es)) = map_of (rangeOrder L es)"
    using d by (intro map_of_inject_set[THEN iffD2]) (simp_all add: rev_map[symmetric])
  also have "\<dots> = map_of es"
    using d assms(2) s by (simp add: map_of_inject_set)
  finally show ?thesis .
qed

lemma clone_ok_distinct:
  assumes "range_ok L" "distinct (map fst (map_entries h orig))" "valid_ref h orig"
    "no_panic L fs"
  shows "\<exists>h'. clone L h orig fs = (h', Inr (nxt h)) \<and>
           map_of (cells h' (nxt h)) = map_of (map_entries h orig) ++ field_values L fs"
proof -
  obtain h1 c where mk: "make_map h = (h1, c)" by (cases "make_map h")
  then have c: "c = nxt h" and c1: "\<And>a. a \<noteq> nxt h \<Longrightarrow> cells h1 a = cells h a"
    and e1: "cells h1 c = []"
    by (auto simp: make_map_def)
  have ent: "map_entries h1 orig = map_entries h orig"
    using assms(3) c1 by (auto simp: map_entries_def valid_ref_def split: option.splits)
  define h2 where "h2 = copy_loop h1 c (rangeOrder L (map_entries h1 orig))"
  have m2: "map_of (cells h2 c) = map_of (map_entries h orig)"
    using range_ok_map_of[OF assms(1,2)] by (simp add: h2_def map_of_copy_loop e1 ent)
  obtain h3 r where fl: "fields_loop L h2 c fs = (h3, r)" by (cases "fields_loop L h2 c fs")
  with fields_loop_ok[OF assms(4), of h2 c]
  have r: "r = Inr ()" and m3: "map_of (cells h3 c) = map_of (cells h2 c) ++ field_values L fs"
    by simp_all
  have "clone L h orig fs = (h3, Inr c)"
    using fl r by (simp add: clone_def mk h2_def)
  with m3 m2 c show ?thesis by simp
qed

lemma clone_ok:
  assumes "range_ok L" "wf_heap h" "valid_ref h orig" "no_panic L fs"
  shows "\<exists>h'. clone L h orig fs = (h', Inr (nxt h)) \<and>
           map_of (cells h' (nxt h)) = map_of (map_entries h orig) ++ field_values L fs"
proof -
  have "distinct (map fst (map_entries h orig))"
    using assms(2,3) by (auto simp: map_entries_def valid_ref_def wf_heap_def split: option.splits)
  from clone_ok_distinct[OF assms(1) this assms(3,4)] show ?thesis .
qed

lemma clone_wf:
  "wf_heap h \<Longrightarrow> wf_heap (fst (clone L h orig fs))"
  using clone_heap[of L h orig fs] unfolding wf_heap_def
  by (metis less_Suc_eq)

lemma classify_skip: "classify L f = Inr None \<longleftrightarrow> Type f = SkipType"
  by (cases "Type f") (simp_all add: classify_def split: option.splits)

lemma dom_field_values:
  "no_panic L fs \<Longrightarrow> dom (field_values L fs) = field_keys fs"
proof (induction fs)
  case Nil
  then show ?case by (simp add: field_keys_def)
next
  case (Cons f fs)
  then have np: "no_panic L fs" and nf: "\<exists>r. classify L f = Inr r"
    by (auto simp: no_panic_def split: sum.splits)
  from nf obtain r where r: "classify L f = Inr r" by blast
  show ?case
  proof (cases r)
    case None
    with r have "Type f = SkipType" by (simp add: classify_skip)
    with None r Cons.IH[OF np] show ?thesis by (simp add: field_keys_def)
  next
    case (Some v)
    with r have "Type f \<noteq> SkipType" using classify_skip[of L f] by auto
    with Some r Cons.IH[OF np] show ?thesis by (auto simp: field_keys_def)
  qed
qed

lemma classify_total:
  "Type f \<noteq> TimeType \<Longrightarrow> Type f \<noteq> StringerType \<Longrightarrow> Type f \<noteq> ErrorType \<Longrightarrow>
   \<exists>r. classify L f = Inr r"
  by (cases "Type f") (simp_all add: classify_def)

lemma With_clone:
  "With L h c newFields =
     (case clone L h (fields' c) newFields of
        (h1, Inl p) \<Rightarrow> (h1, Inl p)
      | (h1, Inr m) \<Rightarrow> (h1, Inr (c\<lparr>fields' := Some m\<rparr>)))"
  by (simp add: With_def split: prod.splits sum.splits)

subsection \<open>Fields of the zap library under the switch of clone\<close>

lemma Key_zap_Field [simp]: "Key (zap_Field k t i s) = k"
  by (simp add: zap_Field_def)

lemma Key_zap [simp]:
  "Key (zap_String k s) = k" "Key (zap_Bool k b) = k"
  "Key (zap_Int64 k i64) = k" "Key (zap_Int32 k i32) = k" "Key (zap_Int16 k i16) = k"
  "Key (zap_Int8 k i8) = k" "Key (zap_Uint64 k u64) = k" "Key (zap_Uint32 k u32) = k"
  "Key (zap_Uint16 k u16) = k" "Key (zap_Uint8 k u8) = k" "Key (zap_Uintptr k up) = k"
  "Key (zap_Float64 k f64) = k" "Key (zap_Float32 k f32) = k"
  by (simp_all add: zap_String_def zap_Bool_def zap_Int64_def zap_Int32_def zap_Int16_def
      zap_Int8_def zap_Uint64_def zap_Uint32_def zap_Uint16_def zap_Uint8_def zap_Uintptr_def
      zap_Float64_def zap_Float32_def)

lemma ucast_scast_down:
  "LENGTH('a::len) \<le> LENGTH('b::len) \<Longrightarrow>
   (ucast (scast (v :: 'a word) :: 'b word) :: 'a word) = v"
  by (rule bit_word_eqI) (auto simp: bit_simps)

lemma ucast_ucast_down:
  "LENGTH('a::len) \<le> LENGTH('b::len) \<Longrightarrow>
   (ucast (ucast (v :: 'a word) :: 'b word) :: 'a word) = v"
  by (rule bit_word_eqI) (auto simp: bit_simps)

lemma classify_zap_String [simp]: "classify L (zap_String k v) = Inr (Some (VString v))"
  by (simp add: classify_def zap_String_def zap_Field_def)

lemma classify_zap_Bool [simp]: "classify L (zap_Bool k v) = Inr (Some (VBool v))"
  by (simp add: classify_def zap_Bool_def zap_Field_def)

lemma classify_zap_signed [simp]:
  "classify L (zap_Int64 k i64) = Inr (Some (VInt64 i64))"
  "classify L (zap_Int32 k i32) = Inr (Some (VInt32 i32))"
  "classify L (zap_Int16 k i16) = Inr (Some (VInt16 i16))"
  "classify L (zap_Int8 k i8) = Inr (Some (VInt8 i8))"
  by (simp_all add: classify_def zap_Int64_def zap_Int32_def zap_Int16_def zap_Int8_def
      zap_Field_def ucast_scast_down)

lemma classify_zap_unsigned [simp]:
  "classify L (zap_Uint64 k u64) = Inr (Some (VUint64 u64))"
  "classify L (zap_Uint32 k u32) = Inr (Some (VUint32 u32))"
  "classify L (zap_Uint16 k u16) = Inr (Some (VUint16 u16))"
  "classify L (zap_Uint8 k u8) = Inr (Some (VUint8 u8))"
  "classify L (zap_Uintptr k up) = Inr (Some (VUintptr up))"
  by (simp_all add: classify_def zap_Uint64_def zap_Uint32_def zap_Uint16_def zap_Uint8_def
      zap_Uintptr_def zap_Field_def ucast_ucast_down)

lemma classify_zap_Float64:
  "classify L (zap_Float64 k bits) = Inr (Some (VFloat64 (float64_of_int64 bits)))"
  by (simp add: classify_def zap_Float64_def zap_Field_def)

lemma classify_zap_Float32:
  "classify L (zap_Float32 k bits) = Inr (Some (VFloat32 (float32_of_int64 (ucast bits))))"
  by (simp add: classify_def zap_Float32_def zap_Field_def)

lemma zap_signed_slot:
  "sint (Integer (zap_Int64 k i64)) = sint i64"
  "sint (Integer (zap_Int32 k i32)) = sint i32"
  "sint (Integer (zap_Int16 k i16)) = sint i16"
  "sint (Integer (zap_Int8 k i8)) = sint i8"
  by (simp_all add: zap_Int64_def zap_Int32_def zap_Int16_def zap_Int8_def zap_Field_def
      sint_up_scast is_up)

lemma zap_unsigned_slot:
  "uint (Integer (zap_Uint64 k u64)) = uint u64"
  "uint (Integer (zap_Uint32 k u32)) = uint u32"
  "uint (Integer (zap_Uint16 k u16)) = uint u16"
  "uint (Integer (zap_Uint8 k u8)) = uint u8"
  "uint (Integer (zap_Uintptr k up)) = uint up"
  by (simp_all add: zap_Uint64_def zap_Uint32_def zap_Uint16_def zap_Uint8_def zap_Uintptr_def
      zap_Field_def uint_up_ucast is_up)

lemma ucast_of_sint:
  fixes x :: "64 word"
  assumes "LENGTH('a::len) \<le> 64"
  shows "(ucast x :: 'a word) = word_of_int (sint x)"
proof -
  have d: "is_down (ucast :: 64 word \<Rightarrow> 'a word)"
    using assms by (simp add: is_down)
  have "(ucast (word_of_int (sint x) :: 64 word) :: 'a word) = word_of_int (sint x)"
    using d by (rule ucast_down_wi)
  then show ?thesis by simp
qed

lemma sint_ucast_in_range:
  fixes x :: "64 word"
  assumes "LENGTH('a::len) \<le> 64" "- (2 ^ (LENGTH('a) - 1)) \<le> sint x"
    "sint x < 2 ^ (LENGTH('a) - 1)"
  shows "sint (ucast x :: 'a word) = sint x"
proof -
  have "sint (word_of_int (sint x) :: 'a word) = signed_take_bit (LENGTH('a) - 1) (sint x)"
    by (rule sint_sbintrunc')
  also have "\<dots> = sint x"
    using assms(2,3) by (rule signed_take_bit_int_eq_self)
  finally show ?thesis
    by (simp only: ucast_of_sint[OF assms(1)])
qed

lemma uint_ucast_in_range:
  fixes x :: "64 word"
  assumes "LENGTH('a::len) \<le> 64" "0 \<le> sint x" "sint x < 2 ^ LENGTH('a)"
  shows "uint (ucast x :: 'a word) = sint x"
proof -
  have "uint (word_of_int (sint x) :: 'a word) = take_bit LENGTH('a) (sint x)"
    by (rule uint_word_of_int_eq)
  also have "\<dots> = sint x"
    using assms(2,3) by (rule take_bit_int_eq_self)
  finally show ?thesis
    by (simp only: ucast_of_sint[OF assms(1)])
qed

lemma classify_integer_types:
  "Type f = Int64Type \<Longrightarrow> classify L f = Inr (Some (VInt64 (Integer f)))"
  "Type f = Int32Type \<Longrightarrow> classify L f = Inr (Some (VInt32 (ucast (Integer f))))"
  "Type f = Int16Type \<Longrightarrow> classify L f = Inr (Some (VInt16 (ucast (Integer f))))"
  "Type f = Int8Type \<Longrightarrow> classify L f = Inr (Some (VInt8 (ucast (Integer f))))"
  "Type f = Uint64Type \<Longrightarrow> classify L f = Inr (Some (VUint64 (Integer f)))"
  "Type f = Uint32Type \<Longrightarrow> classify L f = Inr (Some (VUint32 (ucast (Integer f))))"
  "Type f = Uint16Type \<Longrightarrow> classify L f = Inr (Some (VUint16 (ucast (Integer f))))"
  "Type f = Uint8Type \<Longrightarrow> classify L f = Inr (Some (VUint8 (ucast (Integer f))))"
  "Type f = UintptrType \<Longrightarrow> classify L f = Inr (Some (VUintptr (Integer f)))"
  by (simp_all add: classify_def)

lemma clone_lookup_single:
  assumes "classify L f = Inr (Some v)"
  shows "clone_lookup L h orig [f] (Key f) = Inr (Some v)"
  using assms
  by (simp add: clone_lookup_def clone_def make_map_def map_of_map_store split: prod.splits)

text \<open>
  The conversion on small values, on a negative one, and on the two sides of a tie above
  \<open>2 ^ 53\<close>; then on the bits of 1.0.
\<close>

lemma bit_len_small: "bit_len (Suc 0) = 1" "bit_len 3 = 2"
  by (simp_all add: bit_len.simps)

lemma bit_len_2_53: "bit_len 9007199254740993 = 54" "bit_len 9007199254740995 = 54"
  by (simp_all add: bit_len.simps)

lemma float64_of_int64_examples:
  "float64_of_int64 0 = 0"
  "float64_of_int64 1 = 0x3FF0000000000000"
  "float64_of_int64 (- 1) = 0xBFF0000000000000"
  "float64_of_int64 3 = 0x4008000000000000"
  "float64_of_int64 9007199254740993 = 0x4340000000000000"
  "float64_of_int64 9007199254740995 = 0x4340000000000002"
  by (simp_all add: float64_of_int64_def float_of_int_def Let_def bit_len_small bit_len_2_53)

lemma bit_len_one_bits64: "bit_len 4607182418800017408 = 62"
  by (simp add: bit_len.simps)

lemma float64_of_one_bits: "float64_of_int64 0x3FF0000000000000 = 0x43CFF80000000000"
  by (simp add: float64_of_int64_def float_of_int_def Let_def bit_len_one_bits64)

lemma bit_len_one_bits32: "bit_len 1065353216 = 30"
  by (simp add: bit_len.simps)

lemma float32_of_one_bits: "float32_of_int64 0x3F800000 = 0x4E7E0000"
  by (simp add: float32_of_int64_def float_of_int_def Let_def bit_len_one_bits32)

lemma range_ok_lib0: "range_ok lib0"
  by (simp add: range_ok_def lib0_def)

lemma wf_heap1: "wf_heap heap1"
  by (simp add: wf_heap_def heap1_def)

lemma wf_heap0: "wf_heap heap0"
  by (simp add: wf_heap_def heap0_def)

lemma classify_zapdriver_HTTP [simp]:
  "classify L (zapdriver_HTTP req) = Inr (Some (VHTTPPayload (Some req)))"
  by (simp add: classify_def zapdriver_HTTP_def)

lemma Key_zapdriver_HTTP [simp]: "Key (zapdriver_HTTP req) = ''httpRequest''"
  by (simp add: zapdriver_HTTP_def)

section \<open>Lemmas on Write\<close>

lemma length_labels_prefix: "length ''labels.'' = 7"
  by simp

lemma HasPrefix_labels: "HasPrefix k ''labels.'' \<longleftrightarrow> 7 \<le> length k \<and> take 7 k = ''labels.''"
  by (simp only: HasPrefix_def length_labels_prefix)

lemma HasPrefix_labels_drop: "HasPrefix k ''labels.'' \<Longrightarrow> k = ''labels.'' @ drop 7 k"
proof -
  assume "HasPrefix k ''labels.''"
  then have "take 7 k = ''labels.''" by (simp only: HasPrefix_labels)
  then show ?thesis by (metis append_take_drop_id)
qed

lemma HasPrefix_labels_append [simp]: "HasPrefix (''labels.'' @ k') ''labels.''"
  by (simp add: HasPrefix_def)

lemma drop_labels_append: "drop 7 (''labels.'' @ k') = k'"
  by simp

lemma not_label_keys [simp]:
  "\<not> HasPrefix ''stack'' ''labels.''" "\<not> HasPrefix ''message'' ''labels.''"
  "\<not> HasPrefix ''httpRequest'' ''labels.''" "\<not> HasPrefix InsertIDKey ''labels.''"
  by (simp_all add: HasPrefix_def InsertIDKey_def)

subsection \<open>One step of the loop of Write\<close>

lemma range_body_heap:
  "nxt (fst (fst (range_body L p k v h e))) = nxt h \<and>
   (\<forall>a. a \<noteq> p \<longrightarrow> cells (fst (fst (range_body L p k v h e))) a = cells h a)"
  by (simp add: range_body_def Let_def cells_map_delete_other split: option.splits)

lemma range_body_label:
  assumes "HasPrefix k ''labels.''" "assert_string v = Some s"
  shows "\<exists>e'. range_body L p k v h e = ((map_delete h p k, e'), Inr ()) \<and>
           labels_of e' = (labels_of e)(drop 7 k \<mapsto> s) \<and>
           e'\<lparr>Labels := Labels e\<rparr> = e"
  using assms
  by (cases "Labels e") (auto simp: range_body_def Let_def labels_of_def update_conv')

lemma range_body_label_panic:
  assumes "HasPrefix k ''labels.''" "assert_string v = None"
  shows "\<exists>s. range_body L p k v h e = (s, Inl TypeAssertion)"
  using assms by (simp add: range_body_def Let_def)

lemma range_body_http:
  assumes "\<not> HasPrefix k ''labels.''" "k = ''httpRequest''" "assert_HTTPPayload v = Some (Some pl)"
  shows "range_body L p k v h e
           = ((map_delete h p k, e\<lparr>HTTPRequest := Some (decode_httpRequest L pl)\<rparr>), Inr ())"
  using assms by (simp add: range_body_def)

lemma range_body_other:
  assumes "\<not> HasPrefix k ''labels.''" "k \<noteq> ''httpRequest''"
  shows "range_body L p k v h e = ((h, e), Inr ())"
  using assms by (simp add: range_body_def)

lemma range_body_ok:
  assumes "entry_ok k v"
  shows "\<exists>h' e'. range_body L p k v h e = ((h', e'), Inr ()) \<and>
           h' = (if special_key k then map_delete h p k else h) \<and>
           labels_of e' = (if HasPrefix k ''labels.''
                           then (labels_of e)(drop 7 k \<mapsto> the (assert_string v))
                           else labels_of e) \<and>
           HTTPRequest e' = (if special_key k \<and> \<not> HasPrefix k ''labels.''
                             then Some (decode_httpRequest L (the (the (assert_HTTPPayload v))))
                             else HTTPRequest e) \<and>
           e'\<lparr>Labels := Labels e, HTTPRequest := HTTPRequest e\<rparr> = e"
proof (cases "HasPrefix k ''labels.''")
  case True
  with assms obtain s where s: "assert_string v = Some s"
    by (auto simp: entry_ok_def)
  from range_body_label[OF True s, of L p h e] obtain e' where
    "range_body L p k v h e = ((map_delete h p k, e'), Inr ())"
    "labels_of e' = (labels_of e)(drop 7 k \<mapsto> s)" "e'\<lparr>Labels := Labels e\<rparr> = e"
    by blast
  moreover from this have "HTTPRequest e' = HTTPRequest e"
    by (metis gcl_Entry.select_convs(6) gcl_Entry.surjective gcl_Entry.update_convs(4))
  ultimately show ?thesis
    using True s by (auto simp: special_key_def)
next
  case False
  show ?thesis
  proof (cases "k = ''httpRequest''")
    case True
    with assms False obtain pl where pl: "assert_HTTPPayload v = Some (Some pl)"
      by (auto simp: entry_ok_def split: option.splits)
    show ?thesis
      using range_body_http[OF False True pl, of L p h e] False True pl
      by (simp add: special_key_def labels_of_def)
  next
    case k: False
    show ?thesis
      using range_body_other[OF False k, of L p v h e] False k
      by (simp add: special_key_def)
  qed
qed

subsection \<open>The loop of Write\<close>

lemma range_loop_heap:
  "nxt (fst (fst (range_loop L p es h e))) = nxt h \<and>
   (\<forall>a. a \<noteq> p \<longrightarrow> cells (fst (fst (range_loop L p es h e))) a = cells h a)"
proof (induction L p es h e rule: range_loop.induct)
  case (1 L p h e)
  then show ?case by simp
next
  case (2 L p k v es h e)
  obtain h1 e1 r where b: "range_body L p k v h e = ((h1, e1), r)"
    by (metis surj_pair)
  have hb: "nxt h1 = nxt h \<and> (\<forall>a. a \<noteq> p \<longrightarrow> cells h1 a = cells h a)"
    using range_body_heap[of L p k v h e] b by simp
  show ?case
  proof (cases r)
    case (Inl x)
    with b hb show ?thesis by simp
  next
    case (Inr u)
    with b hb "2.IH"[of "(h1, e1)" r h1 e1 u] show ?thesis by simp
  qed
qed

lemma range_loop_panic:
  assumes "(k, v) \<in> set es" "HasPrefix k ''labels.''" "assert_string v = None"
  shows "\<exists>x. snd (range_loop L p es h e) = Inl x"
  using assms
proof (induction L p es h e rule: range_loop.induct)
  case (1 L p h e)
  then show ?case by simp
next
  case (2 L p k' v' es h e)
  obtain h1 e1 r where b: "range_body L p k' v' h e = ((h1, e1), r)"
    by (metis surj_pair)
  show ?case
  proof (cases r)
    case (Inl x)
    with b show ?thesis by simp
  next
    case (Inr u)
    have "(k', v') \<noteq> (k, v)"
    proof
      assume "(k', v') = (k, v)"
      with range_body_label_panic[OF "2.prems"(2,3), of L p h e] b Inr show False by simp
    qed
    with "2.prems" have "(k, v) \<in> set es" by auto
    with "2.IH"[of "(h1, e1)" r h1 e1 u] b Inr "2.prems" show ?thesis by simp
  qed
qed

lemma range_loop_ok:
  assumes "payload_ok es" "distinct (map fst es)"
  shows "\<exists>h' e'. range_loop L p es h e = ((h', e'), Inr ()) \<and>
           map_of (cells h' p)
             = (\<lambda>x. if x \<in> fst ` set es \<and> special_key x then None else map_of (cells h p) x) \<and>
           labels_of e'
             = (\<lambda>x. case map_of es (''labels.'' @ x) of
                      Some v \<Rightarrow> assert_string v
                    | None \<Rightarrow> labels_of e x) \<and>
           HTTPRequest e'
             = (case map_of es ''httpRequest'' of
                  Some v \<Rightarrow> Some (decode_httpRequest L (the (the (assert_HTTPPayload v))))
                | None \<Rightarrow> HTTPRequest e) \<and>
           e'\<lparr>Labels := Labels e, HTTPRequest := HTTPRequest e\<rparr> = e"
  using assms
proof (induction es arbitrary: h e)
  case Nil
  then show ?case by simp
next
  case (Cons kv es)
  obtain k v where kv: "kv = (k, v)" by (cases kv)
  from Cons.prems kv have ok: "entry_ok k v" and oks: "payload_ok es"
    and notin: "k \<notin> fst ` set es" and dist: "distinct (map fst es)"
    by (auto simp: payload_ok_def)
  from range_body_ok[OF ok, of L p h e] obtain h1 e1 where
    b: "range_body L p k v h e = ((h1, e1), Inr ())" and
    h1: "h1 = (if special_key k then map_delete h p k else h)" and
    l1: "labels_of e1 = (if HasPrefix k ''labels.''
                         then (labels_of e)(drop 7 k \<mapsto> the (assert_string v))
                         else labels_of e)" and
    r1: "HTTPRequest e1 = (if special_key k \<and> \<not> HasPrefix k ''labels.''
                             then Some (decode_httpRequest L (the (the (assert_HTTPPayload v))))
                             else HTTPRequest e)" and
    o1: "e1\<lparr>Labels := Labels e, HTTPRequest := HTTPRequest e\<rparr> = e"
    by blast
  from Cons.IH[OF oks dist, of h1 e1] obtain h' e' where
    lp: "range_loop L p es h1 e1 = ((h', e'), Inr ())" and
    m: "map_of (cells h' p)
          = (\<lambda>x. if x \<in> fst ` set es \<and> special_key x then None else map_of (cells h1 p) x)" and
    l: "labels_of e' = (\<lambda>x. case map_of es (''labels.'' @ x) of
                              Some v \<Rightarrow> assert_string v
                            | None \<Rightarrow> labels_of e1 x)" and
    r: "HTTPRequest e' = (case map_of es ''httpRequest'' of
                            Some v \<Rightarrow> Some (decode_httpRequest L (the (the (assert_HTTPPayload v))))
                          | None \<Rightarrow> HTTPRequest e1)" and
    o: "e'\<lparr>Labels := Labels e1, HTTPRequest := HTTPRequest e1\<rparr> = e1"
    by blast
  have run: "range_loop L p (kv # es) h e = ((h', e'), Inr ())"
    using b lp kv by simp
  have m1: "map_of (cells h1 p) = (\<lambda>x. if x = k \<and> special_key k then None else map_of (cells h p) x)"
    by (auto simp: h1 map_of_map_delete)
  have pm: "map_of (cells h' p)
      = (\<lambda>x. if x \<in> fst ` set (kv # es) \<and> special_key x then None else map_of (cells h p) x)"
    unfolding m m1 kv by auto
  have none: "map_of es k = None"
    using notin by (simp add: map_of_eq_None_iff)
  have lm: "labels_of e'
      = (\<lambda>x. case map_of (kv # es) (''labels.'' @ x) of
               Some v \<Rightarrow> assert_string v
             | None \<Rightarrow> labels_of e x)"
  proof
    fix x
    show "labels_of e' x = (case map_of (kv # es) (''labels.'' @ x) of
               Some v \<Rightarrow> assert_string v
             | None \<Rightarrow> labels_of e x)"
    proof (cases "k = ''labels.'' @ x")
      case True
      then have hp: "HasPrefix k ''labels.''" and dk: "drop 7 k = x"
        by (simp_all add: HasPrefix_def)
      from ok hp obtain s where s: "assert_string v = Some s"
        by (auto simp: entry_ok_def)
      show ?thesis
        using True none hp dk s by (simp add: l l1 kv)
    next
      case False
      have "HasPrefix k ''labels.'' \<Longrightarrow> drop 7 k \<noteq> x"
        using False HasPrefix_labels_drop by blast
      then show ?thesis
        using False by (auto simp: l l1 kv split: option.splits)
    qed
  qed
  have rm: "HTTPRequest e'
      = (case map_of (kv # es) ''httpRequest'' of
           Some v \<Rightarrow> Some (decode_httpRequest L (the (the (assert_HTTPPayload v))))
         | None \<Rightarrow> HTTPRequest e)"
  proof (cases "k = ''httpRequest''")
    case True
    then show ?thesis
      using none by (simp add: r r1 kv special_key_def)
  next
    case False
    then show ?thesis
      by (simp add: r r1 kv special_key_def split: option.splits)
  qed
  have om: "e'\<lparr>Labels := Labels e, HTTPRequest := HTTPRequest e\<rparr> = e"
    using o o1 by (metis gcl_Entry.update_convs(4,6) gcl_Entry.surjective)
  show ?case
    using run pm lm rm om by blast
qed

subsection \<open>Write as a whole\<close>

lemma Write_alt:
  "Write L h c ze F =
     (case clone L h (fields' c) F of
        (h1, Inl x) \<Rightarrow> ((h1, []), Inl x)
      | (h1, Inr p) \<Rightarrow>
          (case range_loop L p (rangeOrder L (cells (stack_message h1 p ze) p))
                  (stack_message h1 p ze) (initial_entry c ze p) of
             ((h4, e), Inl x) \<Rightarrow> ((h4, []), Inl x)
           | ((h4, e), Inr u) \<Rightarrow>
               (case Logger c of
                  None \<Rightarrow> ((map_delete h4 p InsertIDKey, []), Inl NilDereference)
                | Some n \<Rightarrow> ((map_delete h4 p InsertIDKey, [final_entry L ze h4 p e]), Inr None))))"
  by (simp add: Write_def Let_def stack_message_def initial_entry_def final_entry_def
      split: prod.splits sum.splits option.splits)

lemma assert_string_None: "assert_string v = None \<longleftrightarrow> (\<forall>s. v \<noteq> VString s)"
  by (cases v) simp_all

lemma range_ok_set:
  assumes "range_ok L" "distinct (map fst es)"
  shows "set (rangeOrder L es) = set es \<and> distinct (map fst (rangeOrder L es)) \<and>
         map_of (rangeOrder L es) = map_of es"
proof -
  have m: "mset (rangeOrder L es) = mset es"
    using assms by (simp add: range_ok_def)
  then have s: "set (rangeOrder L es) = set es"
    by (metis set_mset_mset)
  from m have "mset (map fst (rangeOrder L es)) = mset (map fst es)"
    by (metis mset_map)
  then have d: "distinct (map fst (rangeOrder L es))"
    using assms(2) by (metis distinct_count_atmost_1 set_mset_mset)
  have "map_of (rangeOrder L es) = map_of es"
    using d assms(2) s by (simp add: map_of_inject_set)
  with s d show ?thesis by simp
qed

lemma clone_payload_distinct:
  assumes "clone L h orig F = (h1, Inr p)"
  shows "distinct (map fst (cells h1 p))"
proof -
  have "p = nxt h" using clone_result[of L h orig F p] assms by simp
  then show ?thesis using clone_heap[of L h orig F] assms by simp
qed

lemma stack_message_cells:
  "distinct (map fst (cells h1 p)) \<Longrightarrow> distinct (map fst (cells (stack_message h1 p ze) p))"
  "map_of (cells (stack_message h1 p ze) p)
     = (if Stack ze \<noteq> [] then (map_of (cells h1 p))(''stack'' \<mapsto> VString (Stack ze))
        else map_of (cells h1 p))(''message'' \<mapsto> VString (Message ze))"
  "nxt (stack_message h1 p ze) = nxt h1"
  "a \<noteq> p \<Longrightarrow> cells (stack_message h1 p ze) a = cells h1 a"
  by (simp_all add: stack_message_def cells_map_store_same cells_map_store_other
      update_conv' distinct_update)

lemma entry_ok_not_special: "\<not> special_key k \<Longrightarrow> entry_ok k v"
  by (simp add: special_key_def entry_ok_def)

lemma payload_ok_iff: "payload_ok es \<longleftrightarrow> (\<forall>(k, v) \<in> set es. entry_ok k v)"
  by (simp add: payload_ok_def list_all_iff)

lemma payload_ok_update:
  "payload_ok es \<Longrightarrow> entry_ok k v \<Longrightarrow> payload_ok (AList.update k v es)"
  by (induction es) (auto simp: payload_ok_def)

lemma stack_message_ok:
  "payload_ok (cells h1 p) \<Longrightarrow> payload_ok (cells (stack_message h1 p ze) p)"
  by (simp add: stack_message_def cells_map_store_same payload_ok_update entry_ok_def)

lemma Write_panics:
  assumes "range_ok L" "clone L h (fields' c) F = (h1, Inr p)"
    "map_of (cells h1 p) k = Some v" "HasPrefix k ''labels.''" "assert_string v = None"
  shows "\<exists>h' x. Write L h c ze F = ((h', []), Inl x)"
proof -
  let ?h3 = "stack_message h1 p ze"
  have d1: "distinct (map fst (cells h1 p))"
    using clone_payload_distinct[OF assms(2)] .
  have d3: "distinct (map fst (cells ?h3 p))"
    using d1 by (rule stack_message_cells(1))
  have "k \<noteq> ''stack''" "k \<noteq> ''message''"
    using assms(4) by auto
  then have "map_of (cells ?h3 p) k = Some v"
    using assms(3) by (simp add: stack_message_cells(2))
  then have "(k, v) \<in> set (cells ?h3 p)"
    by (rule map_of_SomeD)
  then have "(k, v) \<in> set (rangeOrder L (cells ?h3 p))"
    using range_ok_set[OF assms(1) d3] by simp
  from range_loop_panic[OF this assms(4,5), of L p ?h3 "initial_entry c ze p"]
  obtain x where "snd (range_loop L p (rangeOrder L (cells ?h3 p)) ?h3 (initial_entry c ze p)) = Inl x"
    by blast
  then obtain h4 e where
    "range_loop L p (rangeOrder L (cells ?h3 p)) ?h3 (initial_entry c ze p) = ((h4, e), Inl x)"
    by (metis prod.collapse)
  then show ?thesis
    using assms(2) by (simp add: Write_alt)
qed

lemma Write_ok:
  fixes ze :: Entry
  assumes "range_ok L" "clone L h (fields' c) F = (h1, Inr p)" "Logger c = Some n"
    "payload_ok (cells h1 p)"
  defines "M \<equiv> map_of (cells (stack_message h1 p ze) p)"
  shows "\<exists>h' e. Write L h c ze F = ((h', [e]), Inr None) \<and>
           map_of (cells h' p)
             = (\<lambda>x. if special_key x \<or> x = InsertIDKey then None else M x) \<and>
           (\<forall>a. a \<noteq> p \<longrightarrow> cells h' a = cells h1 a) \<and>
           labels_of e = (\<lambda>x. case M (''labels.'' @ x) of
                                Some v \<Rightarrow> assert_string v
                              | None \<Rightarrow> None) \<and>
           HTTPRequest e
             = (case M ''httpRequest'' of
                  Some v \<Rightarrow> Some (decode_httpRequest L (the (the (assert_HTTPPayload v))))
                | None \<Rightarrow> None) \<and>
           Severity e = (case SeverityMapping c (Level ze) of
                           Some s \<Rightarrow> s
                         | None \<Rightarrow> gcl_Default) \<and>
           Timestamp e = Time ze \<and> Payload e = p \<and> LogName e = LoggerName ze \<and>
           InsertID e = (case M InsertIDKey of
                           Some v \<Rightarrow> (case assert_string v of Some i \<Rightarrow> i | None \<Rightarrow> [])
                         | None \<Rightarrow> [])"
proof -
  let ?hm = "stack_message h1 p ze"
  let ?es = "rangeOrder L (cells ?hm p)"
  let ?ini = "initial_entry c ze p"
  have d3: "distinct (map fst (cells ?hm p))"
    using clone_payload_distinct[OF assms(2)] by (rule stack_message_cells(1))
  have ro: "set ?es = set (cells ?hm p)" "distinct (map fst ?es)" "map_of ?es = M"
    using range_ok_set[OF assms(1) d3] by (simp_all add: M_def)
  have "payload_ok (cells ?hm p)"
    using assms(4) by (rule stack_message_ok)
  then have ok: "payload_ok ?es"
    using ro(1) by (simp add: payload_ok_iff)
  from range_loop_ok[OF ok ro(2), of L p ?hm ?ini] obtain h4 e4 where
    lp: "range_loop L p ?es ?hm ?ini = ((h4, e4), Inr ())" and
    m4: "map_of (cells h4 p)
           = (\<lambda>x. if x \<in> fst ` set ?es \<and> special_key x then None else map_of (cells ?hm p) x)" and
    l4: "labels_of e4 = (\<lambda>x. case map_of ?es (''labels.'' @ x) of
                               Some v \<Rightarrow> assert_string v
                             | None \<Rightarrow> labels_of ?ini x)" and
    r4: "HTTPRequest e4 = (case map_of ?es ''httpRequest'' of
                             Some v \<Rightarrow> Some (decode_httpRequest L (the (the (assert_HTTPPayload v))))
                           | None \<Rightarrow> HTTPRequest ?ini)" and
    o4: "e4\<lparr>Labels := Labels ?ini, HTTPRequest := HTTPRequest ?ini\<rparr> = ?ini"
    by blast
  let ?hd = "map_delete h4 p InsertIDKey"
  let ?fin = "final_entry L ze h4 p e4"
  have w: "Write L h c ze F = ((?hd, [?fin]), Inr None)"
    using assms(2,3) lp by (simp add: Write_alt)
  have m4': "map_of (cells h4 p) = (\<lambda>x. if special_key x then None else M x)"
  proof
    fix x
    have "x \<notin> fst ` set ?es \<Longrightarrow> M x = None"
      using ro(3) by (metis map_of_eq_None_iff)
    then show "map_of (cells h4 p) x = (if special_key x then None else M x)"
      by (auto simp: m4 M_def)
  qed
  have m5: "map_of (cells ?hd p) = (\<lambda>x. if special_key x \<or> x = InsertIDKey then None else M x)"
    by (auto simp: map_of_map_delete m4')
  have heap4: "\<forall>a. a \<noteq> p \<longrightarrow> cells h4 a = cells ?hm a"
    using range_loop_heap[of L p ?es ?hm ?ini] lp by simp
  have c5: "\<forall>a. a \<noteq> p \<longrightarrow> cells ?hd a = cells h1 a"
    using heap4 by (simp add: cells_map_delete_other stack_message_cells(4))
  have l5: "labels_of ?fin = (\<lambda>x. case M (''labels.'' @ x) of
                                Some v \<Rightarrow> assert_string v
                              | None \<Rightarrow> None)"
  proof -
    have "labels_of ?fin = labels_of e4"
      by (simp add: final_entry_def labels_of_def)
    also have "\<dots> = (\<lambda>x. case M (''labels.'' @ x) of
                                Some v \<Rightarrow> assert_string v
                              | None \<Rightarrow> None)"
    proof -
      have "labels_of ?ini = Map.empty"
        by (simp add: labels_of_def initial_entry_def)
      then show ?thesis by (auto simp: l4 ro(3) fun_eq_iff split: option.splits)
    qed
    finally show ?thesis .
  qed
  have r5: "HTTPRequest ?fin = (case M ''httpRequest'' of
                  Some v \<Rightarrow> Some (decode_httpRequest L (the (the (assert_HTTPPayload v))))
                | None \<Rightarrow> None)"
    by (simp add: final_entry_def r4 ro(3) initial_entry_def split: option.splits)
  have sel: "Severity e4 = Severity ?ini" "Timestamp e4 = Timestamp ?ini"
    "Payload e4 = Payload ?ini" "LogName e4 = LogName ?ini" "InsertID e4 = InsertID ?ini"
    using o4 by (metis gcl_Entry.select_convs gcl_Entry.surjective gcl_Entry.update_convs(4,6))+
  have s5: "Severity ?fin = (case SeverityMapping c (Level ze) of
                           Some s \<Rightarrow> s
                         | None \<Rightarrow> gcl_Default)"
    "Timestamp ?fin = Time ze" "Payload ?fin = p" "LogName ?fin = LoggerName ze"
    using sel by (simp_all add: final_entry_def initial_entry_def)
  have "\<not> special_key InsertIDKey"
    by (simp add: special_key_def) (simp add: InsertIDKey_def)
  then have "map_of (cells h4 p) InsertIDKey = M InsertIDKey"
    by (simp add: m4')
  then have i5: "InsertID ?fin = (case M InsertIDKey of
                           Some v \<Rightarrow> (case assert_string v of Some i \<Rightarrow> i | None \<Rightarrow> [])
                         | None \<Rightarrow> [])"
    using sel(5) by (simp add: final_entry_def initial_entry_def split: option.splits)
  show ?thesis
    using w m5 c5 l5 r5 s5 i5 by blast
qed

lemma range_body_keeps:
  "\<not> special_key x \<Longrightarrow>
   map_of (cells (fst (fst (range_body L p k v h e))) p) x = map_of (cells h p) x"
  by (auto simp: range_body_def Let_def special_key_def map_of_map_delete split: option.splits)

lemma range_loop_keeps:
  "\<not> special_key x \<Longrightarrow>
   map_of (cells (fst (fst (range_loop L p es h e))) p) x = map_of (cells h p) x"
proof (induction L p es h e rule: range_loop.induct)
  case (1 L p h e)
  then show ?case by simp
next
  case (2 L p k v es h e)
  obtain h1 e1 r where b: "range_body L p k v h e = ((h1, e1), r)"
    by (metis surj_pair)
  have hb: "map_of (cells h1 p) x = map_of (cells h p) x"
    using range_body_keeps[OF "2.prems", of L p k v h e] b by simp
  show ?case
  proof (cases r)
    case (Inl y)
    with b hb show ?thesis by simp
  next
    case (Inr u)
    with b hb "2.IH"[of "(h1, e1)" r h1 e1 u] "2.prems" show ?thesis by simp
  qed
qed

lemma range_body_entry:
  "Severity (snd (fst (range_body L p k v h e))) = Severity e \<and>
   Payload (snd (fst (range_body L p k v h e))) = Payload e"
  by (simp add: range_body_def Let_def split: option.splits)

lemma range_loop_entry:
  "Severity (snd (fst (range_loop L p es h e))) = Severity e \<and>
   Payload (snd (fst (range_loop L p es h e))) = Payload e"
proof (induction L p es h e rule: range_loop.induct)
  case (1 L p h e)
  then show ?case by simp
next
  case (2 L p k v es h e)
  obtain h1 e1 r where b: "range_body L p k v h e = ((h1, e1), r)"
    by (metis surj_pair)
  have hb: "Severity e1 = Severity e \<and> Payload e1 = Payload e"
    using range_body_entry[of L p k v h e] b by simp
  show ?case
  proof (cases r)
    case (Inl y)
    with b hb show ?thesis by simp
  next
    case (Inr u)
    with b hb "2.IH"[of "(h1, e1)" r h1 e1 u] show ?thesis by simp
  qed
qed

lemma range_body_Severity:
  "range_body L p k v h (e\<lparr>Severity := s\<rparr>)
     = (case range_body L p k v h e of ((h', e'), r) \<Rightarrow> ((h', e'\<lparr>Severity := s\<rparr>), r))"
  by (simp add: range_body_def Let_def split: option.splits)

lemma range_loop_Severity:
  "range_loop L p es h (e\<lparr>Severity := s\<rparr>)
     = (case range_loop L p es h e of ((h', e'), r) \<Rightarrow> ((h', e'\<lparr>Severity := s\<rparr>), r))"
proof (induction L p es h e rule: range_loop.induct)
  case (1 L p h e)
  then show ?case by simp
next
  case (2 L p k v es h e)
  obtain h1 e1 r where b: "range_body L p k v h e = ((h1, e1), r)"
    by (metis surj_pair)
  show ?case
  proof (cases r)
    case (Inl y)
    with b show ?thesis by (simp add: range_body_Severity)
  next
    case (Inr u)
    with b "2.IH"[of "(h1, e1)" r h1 e1 u] show ?thesis by (simp add: range_body_Severity)
  qed
qed

lemma Write_outcome_Severity:
  "snd (Write L h (c\<lparr>SeverityMapping := m\<rparr>) (ze\<lparr>Level := l\<rparr>) F) = snd (Write L h c ze F)"
proof -
  obtain h1 r1 where cl: "clone L h (fields' c) F = (h1, r1)"
    by (metis surj_pair)
  show ?thesis
  proof (cases r1)
    case (Inl x)
    with cl show ?thesis by (simp add: Write_alt)
  next
    case (Inr p)
    let ?s = "case m l of Some s \<Rightarrow> s | None \<Rightarrow> gcl_Default"
    have sm: "stack_message h1 p (ze\<lparr>Level := l\<rparr>) = stack_message h1 p ze"
      by (simp add: stack_message_def)
    have ie: "initial_entry (c\<lparr>SeverityMapping := m\<rparr>) (ze\<lparr>Level := l\<rparr>) p
                = (initial_entry c ze p)\<lparr>Severity := ?s\<rparr>"
      by (simp add: initial_entry_def)
    obtain h4 e4 r4 where lp:
      "range_loop L p (rangeOrder L (cells (stack_message h1 p ze) p)) (stack_message h1 p ze)
         (initial_entry c ze p) = ((h4, e4), r4)"
      by (metis surj_pair)
    then have lp': "range_loop L p (rangeOrder L (cells (stack_message h1 p ze) p))
         (stack_message h1 p ze) ((initial_entry c ze p)\<lparr>Severity := ?s\<rparr>)
         = ((h4, e4\<lparr>Severity := ?s\<rparr>), r4)"
      by (simp add: range_loop_Severity)
    show ?thesis
      using cl Inr lp lp' by (cases r4; cases "Logger c") (simp_all add: Write_alt sm ie)
  qed
qed

lemma Write_delivers:
  assumes "Write L h c ze F = ((h', es), Inr r)"
  shows "\<exists>e. es = [e] \<and>
           Severity e = (case SeverityMapping c (Level ze) of
                           Some s \<Rightarrow> s
                         | None \<Rightarrow> gcl_Default) \<and>
           map_of (cells h' (Payload e)) ''message'' = Some (VString (Message ze))"
proof -
  obtain h1 r1 where cl: "clone L h (fields' c) F = (h1, r1)"
    by (metis surj_pair)
  with assms obtain p where p: "r1 = Inr p"
    by (cases r1) (auto simp: Write_alt)
  let ?hm = "stack_message h1 p ze"
  obtain h4 e4 r4 where lp:
    "range_loop L p (rangeOrder L (cells ?hm p)) ?hm (initial_entry c ze p) = ((h4, e4), r4)"
    by (metis surj_pair)
  with assms cl p obtain u where u: "r4 = Inr u"
    by (cases r4) (auto simp: Write_alt)
  from assms cl p lp u obtain n where n: "Logger c = Some n"
    by (cases "Logger c") (auto simp: Write_alt)
  have res: "h' = map_delete h4 p InsertIDKey" "es = [final_entry L ze h4 p e4]"
    using assms cl p lp u n by (simp_all add: Write_alt)
  have sp: "Severity e4 = Severity (initial_entry c ze p)" "Payload e4 = p"
    using range_loop_entry[of L p "rangeOrder L (cells ?hm p)" ?hm "initial_entry c ze p"] lp
    by (simp_all add: initial_entry_def)
  have ns: "\<not> special_key ''message''"
    by (simp add: special_key_def)
  have "map_of (cells h4 p) ''message'' = map_of (cells ?hm p) ''message''"
    using range_loop_keeps[OF ns, of L p "rangeOrder L (cells ?hm p)" ?hm "initial_entry c ze p"] lp
    by simp
  then have "map_of (cells h4 p) ''message'' = Some (VString (Message ze))"
    by (simp add: stack_message_def map_of_map_store)
  then have "map_of (cells h' p) ''message'' = Some (VString (Message ze))"
    by (simp add: res map_of_map_delete InsertIDKey_def)
  then show ?thesis
    using sp by (simp add: res final_entry_def initial_entry_def)
qed

lemma payload_ok_strings:
  assumes "distinct (map fst es)"
    "\<And>k v. map_of es k = Some v \<Longrightarrow> k \<noteq> ''httpRequest'' \<and> (\<exists>s. v = VString s)"
  shows "payload_ok es"
proof -
  have "entry_ok k v" if "(k, v) \<in> set es" for k v
  proof -
    from that assms(1) have "map_of es k = Some v" by simp
    from assms(2)[OF this] show ?thesis by (auto simp: entry_ok_def)
  qed
  then show ?thesis by (auto simp: payload_ok_iff)
qed

lemma payload_ok_labels:
  assumes "distinct (map fst es)"
    "\<forall>k v. map_of es k = Some v \<and> HasPrefix k ''labels.'' \<longrightarrow> (\<exists>s. v = VString s)"
    "map_of es ''httpRequest'' = Some (VHTTPPayload (Some pl))"
  shows "payload_ok es"
proof -
  have "entry_ok k v" if "(k, v) \<in> set es" for k v
  proof -
    from that assms(1) have kv: "map_of es k = Some v" by simp
    show ?thesis
    proof (cases "HasPrefix k ''labels.''")
      case True
      with kv assms(2) obtain s where "v = VString s" by blast
      with True show ?thesis by (simp add: entry_ok_def)
    next
      case False
      with kv assms(3) show ?thesis by (auto simp: entry_ok_def)
    qed
  qed
  then show ?thesis by (auto simp: payload_ok_iff)
qed

lemma Write_label_scenario:
  assumes "range_ok L" "valid_ref h (fields' c)" "map_entries h (fields' c) = []"
    "Logger c = Some n" "Stack ze = []"
  shows "\<exists>h' e.
           Write L h c ze [zap_String ''labels.env'' ''prod'',
                           zap_String ''labels.tier'' ''backend'',
                           zap_String ''user'' ''alice'']
             = ((h', [e]), Inr None) \<and>
           labels_of e = [''env'' \<mapsto> ''prod'', ''tier'' \<mapsto> ''backend''] \<and>
           map_of (cells h' (Payload e))
             = [''message'' \<mapsto> VString (Message ze), ''user'' \<mapsto> VString ''alice'']"
proof -
  let ?F = "[zap_String ''labels.env'' ''prod'', zap_String ''labels.tier'' ''backend'',
             zap_String ''user'' ''alice'']"
  have np: "no_panic L ?F" by (simp add: no_panic_def)
  have d0: "distinct (map fst (map_entries h (fields' c)))" by (simp add: assms(3))
  from clone_ok_distinct[OF assms(1) d0 assms(2) np] obtain h1 where
    cl: "clone L h (fields' c) ?F = (h1, Inr (nxt h))" and
    m1: "map_of (cells h1 (nxt h)) = map_of (map_entries h (fields' c)) ++ field_values L ?F"
    by blast
  have m1': "map_of (cells h1 (nxt h))
               = [''labels.env'' \<mapsto> VString ''prod'', ''labels.tier'' \<mapsto> VString ''backend'',
                  ''user'' \<mapsto> VString ''alice'']"
    by (rule ext) (simp add: m1 assms(3) map_add_def)
  have ok: "payload_ok (cells h1 (nxt h))"
  proof (rule payload_ok_strings)
    show "distinct (map fst (cells h1 (nxt h)))"
      using clone_payload_distinct[OF cl] .
  next
    fix k v
    assume "map_of (cells h1 (nxt h)) k = Some v"
    then show "k \<noteq> ''httpRequest'' \<and> (\<exists>s. v = VString s)"
      by (auto simp: m1' split: if_splits)
  qed
  have M: "map_of (cells (stack_message h1 (nxt h) ze) (nxt h))
             = [''labels.env'' \<mapsto> VString ''prod'', ''labels.tier'' \<mapsto> VString ''backend'',
                ''user'' \<mapsto> VString ''alice'', ''message'' \<mapsto> VString (Message ze)]"
    by (simp add: stack_message_cells(2) assms(5) m1')
  from Write_ok[OF assms(1) cl assms(4) ok, of ze] obtain h' e where
    w: "Write L h c ze ?F = ((h', [e]), Inr None)" and
    pm: "map_of (cells h' (nxt h))
           = (\<lambda>x. if special_key x \<or> x = InsertIDKey then None
                   else map_of (cells (stack_message h1 (nxt h) ze) (nxt h)) x)" and
    lm: "labels_of e = (\<lambda>x. case map_of (cells (stack_message h1 (nxt h) ze) (nxt h)) (''labels.'' @ x) of
                              Some v \<Rightarrow> assert_string v
                            | None \<Rightarrow> None)" and
    pe: "Payload e = nxt h"
    by blast
  have l: "labels_of e = [''env'' \<mapsto> ''prod'', ''tier'' \<mapsto> ''backend'']"
    by (rule ext) (simp add: lm M)
  have p: "map_of (cells h' (Payload e))
             = [''message'' \<mapsto> VString (Message ze), ''user'' \<mapsto> VString ''alice'']"
    by (rule ext) (auto simp: pe pm M special_key_def HasPrefix_def InsertIDKey_def)
  show ?thesis
    using w l p by blast
qed

lemma Write_httpRequest_decoded:
  assumes "range_ok L" "clone L h (fields' c) newFields = (h1, Inr payload)"
    "Logger c = Some n"
    "\<forall>k v. map_of (cells h1 payload) k = Some v \<and> HasPrefix k ''labels.'' \<longrightarrow> (\<exists>s. v = VString s)"
    "map_of (cells h1 payload) ''httpRequest'' = Some (VHTTPPayload (Some pl))"
  shows "\<exists>h' e.
         Write L h c ze newFields = ((h', [e]), Inr None) \<and>
         HTTPRequest e
           = Some \<lparr>Request = \<lparr>Method = RequestMethod pl,
                              URL = fst (url_Parse L (RequestURL pl)),
                              Header = [(''User-Agent'', [UserAgent pl]),
                                        (''Referer'', [Referer pl])]\<rparr>,
                   RequestSize = fst (ParseInt (HTTPPayload.RequestSize pl)),
                   Status = HTTPPayload.Status pl,
                   ResponseSize = fst (ParseInt (HTTPPayload.ResponseSize pl)),
                   Latency = fst (ParseDuration L (HTTPPayload.Latency pl)),
                   LocalIP = ServerIP pl,
                   RemoteIP = HTTPPayload.RemoteIP pl,
                   CacheHit = HTTPPayload.CacheHit pl,
                   CacheValidatedWithOriginServer
                     = HTTPPayload.CacheValidatedWithOriginServer pl\<rparr> \<and>
         map_of (cells h' (Payload e)) ''httpRequest'' = None"
proof -
  let ?M = "map_of (cells (stack_message h1 payload ze) payload)"
  have d: "distinct (map fst (cells h1 payload))"
    using clone_payload_distinct[OF assms(2)] .
  have ok: "payload_ok (cells h1 payload)"
    using payload_ok_labels[OF d assms(4,5)] .
  have M: "?M ''httpRequest'' = Some (VHTTPPayload (Some pl))"
    by (simp add: stack_message_cells(2) assms(5))
  from Write_ok[OF assms(1,2,3) ok, of ze] obtain h' e where
    w: "Write L h c ze newFields = ((h', [e]), Inr None)" and
    pm: "map_of (cells h' payload)
           = (\<lambda>x. if special_key x \<or> x = InsertIDKey then None else ?M x)" and
    r: "HTTPRequest e = (case ?M ''httpRequest'' of
                           Some v \<Rightarrow> Some (decode_httpRequest L (the (the (assert_HTTPPayload v))))
                         | None \<Rightarrow> None)" and
    pe: "Payload e = payload"
    by blast
  have "HTTPRequest e = Some (decode_httpRequest L pl)"
    by (simp add: r M)
  moreover have "map_of (cells h' (Payload e)) ''httpRequest'' = None"
    by (simp add: pe pm special_key_def)
  ultimately show ?thesis
    using w by (simp add: decode_httpRequest_def Let_def)
qed

subsection \<open>Concrete runs\<close>

lemma ParseInt_range_example:
  "ParseInt ''9223372036854775808'' = (0x7FFFFFFFFFFFFFFF, Some ErrRange)"
  by (simp add: ParseInt_def ParseUint_def is_digit_def maxUint64_def Let_def)

lemma ParseInt_syntax_example:
  "ParseInt ''12x'' = (0, Some ErrSyntax)"
  by (simp add: ParseInt_def ParseUint_def is_digit_def maxUint64_def Let_def)

lemma ParseInt_ok_example:
  "ParseInt ''-512'' = (- 512, None)"
  by (simp add: ParseInt_def ParseUint_def is_digit_def maxUint64_def Let_def)

lemma ParseInt_errors:
  "(snd (ParseInt s) = Some ErrSyntax \<longrightarrow> fst (ParseInt s) = 0) \<and>
   (snd (ParseInt s) = Some ErrRange \<longrightarrow>
      fst (ParseInt s) = 0x7FFFFFFFFFFFFFFF \<or> fst (ParseInt s) = 0x8000000000000000)"
  by (auto simp: ParseInt_def Let_def split: prod.splits if_splits)

lemma Write_label_count_run:
  "Write lib0 heap0 core0 entry0 [zap_Int64 ''labels.count'' 3]
     = ((fst (fst (Write lib0 heap0 core0 entry0 [zap_Int64 ''labels.count'' 3])), []),
        Inl TypeAssertion)"
  by (simp add: Write_alt clone_def make_map_def map_entries_def lib0_def heap0_def core0_def
      entry0_def classify_def zap_Int64_def zap_Field_def map_store_def stack_message_def
      range_body_def HasPrefix_def initial_entry_def Let_def)

lemma clone_core0:
  assumes "no_panic lib0 F"
  shows "\<exists>h1. clone lib0 heap0 (fields' core0) F = (h1, Inr 0) \<and>
           map_of (cells h1 0) = field_values lib0 F"
proof -
  have "distinct (map fst (map_entries heap0 (fields' core0)))" "valid_ref heap0 (fields' core0)"
    by (simp_all add: map_entries_def core0_def valid_ref_def)
  from clone_ok_distinct[OF range_ok_lib0 this assms]
  show ?thesis by (simp add: heap0_def map_entries_def core0_def)
qed

lemma Write_core0_strings:
  assumes "no_panic lib0 F"
    "\<And>k v. field_values lib0 F k = Some v \<Longrightarrow> k \<noteq> ''httpRequest'' \<and> (\<exists>s. v = VString s)"
  shows "\<exists>h' e. Write lib0 heap0 core0 ze F = ((h', [e]), Inr None)"
proof -
  from clone_core0[OF assms(1)] obtain h1 where
    cl: "clone lib0 heap0 (fields' core0) F = (h1, Inr 0)" and
    m1: "map_of (cells h1 0) = field_values lib0 F"
    by blast
  have ok: "payload_ok (cells h1 0)"
  proof (rule payload_ok_strings)
    show "distinct (map fst (cells h1 0))"
      using clone_payload_distinct[OF cl] .
  next
    fix k v
    assume "map_of (cells h1 0) k = Some v"
    then show "k \<noteq> ''httpRequest'' \<and> (\<exists>s. v = VString s)"
      using assms(2) by (simp add: m1)
  qed
  have lg: "Logger core0 = Some 0" by (simp add: core0_def)
  from Write_ok[OF range_ok_lib0 cl lg ok, of ze] show ?thesis by blast
qed

lemma clone_payload0:
  "\<exists>h1. clone lib0 heap0 (fields' core0) [zapdriver_HTTP payload0] = (h1, Inr 0) \<and>
         map_of (cells h1 0) = [''httpRequest'' \<mapsto> VHTTPPayload (Some payload0)]"
proof -
  have np: "no_panic lib0 [zapdriver_HTTP payload0]" by (simp add: no_panic_def)
  from clone_core0[OF np] show ?thesis by (auto simp: map_add_def)
qed

lemma decode_payload0:
  "decode_httpRequest lib0 payload0
     = \<lparr>Request = \<lparr>Method = ''GET'', URL = None,
                    Header = [(''User-Agent'', [''curl'']), (''Referer'', [[]])]\<rparr>,
        RequestSize = 0x7FFFFFFFFFFFFFFF, Status = 200, ResponseSize = 0, Latency = 0,
        LocalIP = ''10.0.0.2'', RemoteIP = ''10.0.0.1'', CacheHit = False,
        CacheValidatedWithOriginServer = False\<rparr>"
  by (simp add: decode_httpRequest_def Let_def payload0_def lib0_def ParseInt_range_example
      ParseInt_syntax_example)

lemma Write_payload0_run:
  "snd (Write lib0 heap0 core0 entry0 [zapdriver_HTTP payload0]) = Inr None \<and>
   snd (fst (Write lib0 heap0 core0 entry0 [zapdriver_HTTP payload0]))
     = [\<lparr>Timestamp = 0, Severity = 400, Payload = 0, Labels = None, InsertID = [],
         HTTPRequest =
           Some \<lparr>Request = \<lparr>Method = ''GET'', URL = None,
                               Header = [(''User-Agent'', [''curl'']), (''Referer'', [[]])]\<rparr>,
                  RequestSize = 0x7FFFFFFFFFFFFFFF, Status = 200, ResponseSize = 0, Latency = 0,
                  LocalIP = ''10.0.0.2'', RemoteIP = ''10.0.0.1'', CacheHit = False,
                  CacheValidatedWithOriginServer = False\<rparr>,
         LogName = ''test'', SourceLocation = None\<rparr>] \<and>
   cells (fst (fst (Write lib0 heap0 core0 entry0 [zapdriver_HTTP payload0]))) 0
     = [(''message'', VString ''hello'')]"
proof -
  have ro: "rangeOrder lib0 = (\<lambda>es. es)"
    by (simp add: lib0_def)
  show ?thesis
    by (simp add: Write_alt clone_def make_map_def map_entries_def heap0_def core0_def
        entry0_def classify_def zapdriver_HTTP_def map_store_def map_delete_def
        stack_message_def range_body_def HasPrefix_def initial_entry_def final_entry_def Let_def
        InsertIDKey_def DefaultSeverityMapping_def Level_defs Severity_defs decode_payload0 ro)
qed

lemma Write_label_run:
  "snd (Write lib0 heap0 core0 entry0
          [zap_String ''labels.env'' ''prod'', zap_String ''labels.tier'' ''backend'',
           zap_String ''user'' ''alice'']) = Inr None \<and>
   snd (fst (Write lib0 heap0 core0 entry0
          [zap_String ''labels.env'' ''prod'', zap_String ''labels.tier'' ''backend'',
           zap_String ''user'' ''alice'']))
     = [\<lparr>Timestamp = 0, Severity = 400, Payload = 0,
         Labels = Some [(''env'', ''prod''), (''tier'', ''backend'')], InsertID = [],
         HTTPRequest = None, LogName = ''test'', SourceLocation = None\<rparr>] \<and>
   cells (fst (fst (Write lib0 heap0 core0 entry0
          [zap_String ''labels.env'' ''prod'', zap_String ''labels.tier'' ''backend'',
           zap_String ''user'' ''alice'']))) 0
     = [(''user'', VString ''alice''), (''message'', VString ''hello'')]"
  by (simp add: Write_alt clone_def make_map_def map_entries_def lib0_def heap0_def core0_def
      entry0_def classify_def zap_String_def zap_Field_def map_store_def map_delete_def
      stack_message_def range_body_def HasPrefix_def initial_entry_def final_entry_def Let_def
      InsertIDKey_def DefaultSeverityMapping_def Level_defs Severity_defs)

subsection \<open>The loop of Tee\<close>

lemma Tee_loop_threshold:
  assumes "\<forall>l. zc l \<longleftrightarrow> t \<le> l" "l \<le> t" "t \<le> FatalLevel"
  shows "Tee_loop zc l m = t"
  using assms
proof (induction zc l m rule: Tee_loop.induct)
  case (1 zc l m)
  show ?case
  proof (cases "zc l")
    case True
    with 1 have "l = t" by auto
    with True 1 show ?thesis by (simp add: Tee_loop.simps)
  next
    case False
    with 1 have lt: "l < t" by (metis order_le_less)
    with 1 have le: "l \<le> FatalLevel" by simp
    from lt have "l + 1 \<le> t" by simp
    then have "Tee_loop zc (l + 1) m = t"
      by (rule "1.IH"[OF le False "1.prems"(1) _ "1.prems"(3)])
    with False le show ?thesis by (simp add: Tee_loop.simps)
  qed
qed

section \<open>A label that is no string\<close>

text \<open>
  C1. The claim is that \<open>Write\<close> returns an error to its caller when the payload has a
  key with the prefix \<^verbatim>\<open>labels.\<close> whose value is no string. It does not: \<open>Write\<close> has no
  path that returns an error. With the field \<^verbatim>\<open>zap.Int64("labels.count", 3)\<close> the assertion
  \<^verbatim>\<open>v.(string)\<close> panics and nothing is passed to the logger.
\<close>

theorem Write_label_not_string_counterexample:
  "snd (Write lib0 heap0 core0 entry0 [zap_Int64 ''labels.count'' 3]) = Inl TypeAssertion \<and>
   snd (fst (Write lib0 heap0 core0 entry0 [zap_Int64 ''labels.count'' 3])) = []"
proof -
  have "Write lib0 heap0 core0 entry0 [zap_Int64 ''labels.count'' 3]
     = ((fst (fst (Write lib0 heap0 core0 entry0 [zap_Int64 ''labels.count'' 3])), []),
        Inl TypeAssertion)"
    by (rule Write_label_count_run)
  then show ?thesis by (metis fst_conv snd_conv)
qed

text \<open>
  C1, as the code has it. For every entry, when the payload that \<open>clone\<close> returns has a key
  with the prefix \<^verbatim>\<open>labels.\<close> whose value is no string, \<open>Write\<close> does not complete, in
  whatever order the loop visits the payload: it panics, it has passed no record to the
  logger, and it returns no error value.
\<close>

theorem Write_label_not_string_panics:
  assumes "range_ok L" "clone L h (fields' c) newFields = (h1, Inr payload)"
    "map_of (cells h1 payload) k = Some v" "HasPrefix k ''labels.''"
    "\<forall>s. v \<noteq> VString s"
  shows "\<exists>h' x. Write L h c ze newFields = ((h', []), Inl x)"
  using Write_panics[OF assms(1-4)] assms(5) by (simp add: assert_string_None)

theorem Write_label_not_string_panics_witness:
  "range_ok lib0 \<and>
   clone lib0 heap0 (fields' core0) [zap_Int64 ''labels.count'' 3]
     = (fst (clone lib0 heap0 (fields' core0) [zap_Int64 ''labels.count'' 3]), Inr 0) \<and>
   map_of (cells (fst (clone lib0 heap0 (fields' core0) [zap_Int64 ''labels.count'' 3])) 0)
     ''labels.count'' = Some (VInt64 3) \<and>
   HasPrefix ''labels.count'' ''labels.'' \<and>
   (\<exists>h' x. Write lib0 heap0 core0 entry0 [zap_Int64 ''labels.count'' 3] = ((h', []), Inl x))"
proof -
  let ?F = "[zap_Int64 ''labels.count'' 3]"
  have np: "no_panic lib0 ?F" by (simp add: no_panic_def)
  from clone_core0[OF np] obtain h1 where
    cl: "clone lib0 heap0 (fields' core0) ?F = (h1, Inr 0)" and
    m1: "map_of (cells h1 0) = field_values lib0 ?F"
    by blast
  have h1: "h1 = fst (clone lib0 heap0 (fields' core0) ?F)" using cl by simp
  have m: "map_of (cells h1 0) ''labels.count'' = Some (VInt64 3)"
    by (simp add: m1)
  have hp: "HasPrefix ''labels.count'' ''labels.''"
    by (simp add: HasPrefix_def)
  have ns: "\<forall>s. VInt64 3 \<noteq> VString s" by simp
  from Write_label_not_string_panics[OF range_ok_lib0 cl m hp ns, of entry0]
  show ?thesis using cl m hp range_ok_lib0 unfolding h1 by blast
qed

section \<open>Float fields\<close>

text \<open>
  C2. The claim is that a float field comes out of \<open>clone\<close> as the float whose bits the
  integer slot carries. The code converts the slot as a number instead
  (\<^verbatim>\<open>float64(f.Integer)\<close>): the field zap builds for 1.0, whose slot holds the bits
  \<open>0x3FF0000000000000\<close>, comes out as the float with the bits \<open>0x43CFF80000000000\<close>,
  which is 4607182418800017408.0, and the 32-bit field for 1.0 (bits \<open>0x3F800000\<close>) as
  the float with the bits \<open>0x4E7E0000\<close>, which is 1065353216.0.
\<close>

theorem clone_float_numeric_conversion:
  "clone_lookup L h orig [zap_Float64 k 0x3FF0000000000000] k
     = Inr (Some (VFloat64 0x43CFF80000000000)) \<and>
   clone_lookup L h orig [zap_Float32 k 0x3F800000] k
     = Inr (Some (VFloat32 0x4E7E0000))"
proof -
  have "clone_lookup L h orig [zap_Float64 k 0x3FF0000000000000]
          (Key (zap_Float64 k 0x3FF0000000000000))
        = Inr (Some (VFloat64 (float64_of_int64 0x3FF0000000000000)))"
    by (rule clone_lookup_single) (rule classify_zap_Float64)
  moreover have "clone_lookup L h orig [zap_Float32 k 0x3F800000]
          (Key (zap_Float32 k 0x3F800000))
        = Inr (Some (VFloat32 (float32_of_int64 (ucast (0x3F800000 :: 32 word)))))"
    by (rule clone_lookup_single) (rule classify_zap_Float32)
  ultimately show ?thesis
    by (simp add: float64_of_one_bits float32_of_one_bits)
qed

section \<open>Deriving a field map twice\<close>

text \<open>
  C3. For every field map \<open>P\<close> (a valid reference) and all field lists \<open>F1\<close>, \<open>F2\<close>:
  \<open>clone\<close> writes to no map the heap already has, so \<open>P\<close> holds the same entries after
  the first call and after the second, whether or not a call panics. When no field makes
  the switch panic (and the heap is well formed), both calls return, and the map of the
  second holds the entries of \<open>P\<close>, overwritten by the values of \<open>F1\<close>, overwritten by the
  values of \<open>F2\<close>. Its keys are those of \<open>P\<close>, of \<open>F1\<close> and of \<open>F2\<close>; a key that
  neither list has keeps what \<open>P\<close> has for it, a key of \<open>F1\<close> that \<open>F2\<close> does not have
  has the value of \<open>F1\<close>, and every key of \<open>F2\<close> has the value of \<open>F2\<close>. The keys of a
  field list are the keys of its fields that are not skip markers.
\<close>

theorem clone_derive:
  assumes "valid_ref h P"
  shows "map_entries (fst (clone L h P F1)) P = map_entries h P \<and>
         (\<forall>c1. map_entries (fst (clone L (fst (clone L h P F1)) (Some c1) F2)) P = map_entries h P) \<and>
         (range_ok L \<and> wf_heap h \<and> no_panic L F1 \<and> no_panic L F2 \<longrightarrow>
           (\<exists>h1 c1 h2 c2.
              clone L h P F1 = (h1, Inr c1) \<and> clone L h1 (Some c1) F2 = (h2, Inr c2) \<and>
              map_of (cells h2 c2)
                = map_of (map_entries h P) ++ field_values L F1 ++ field_values L F2 \<and>
              dom (map_of (cells h2 c2))
                = dom (map_of (map_entries h P)) \<union> field_keys F1 \<union> field_keys F2 \<and>
              (\<forall>k. k \<notin> field_keys F1 \<and> k \<notin> field_keys F2 \<longrightarrow>
                   map_of (cells h2 c2) k = map_of (map_entries h P) k) \<and>
              (\<forall>k. k \<in> field_keys F1 \<and> k \<notin> field_keys F2 \<longrightarrow>
                   map_of (cells h2 c2) k = field_values L F1 k) \<and>
              (\<forall>k. k \<in> field_keys F2 \<longrightarrow> map_of (cells h2 c2) k = field_values L F2 k) \<and>
              (\<forall>a. a < nxt h \<longrightarrow> cells h1 a = cells h a \<and> cells h2 a = cells h a)))"
proof (intro conjI allI impI)
  let ?h1 = "fst (clone L h P F1)"
  have n1: "nxt ?h1 = Suc (nxt h)" and c1: "\<And>a. a \<noteq> nxt h \<Longrightarrow> cells ?h1 a = cells h a"
    using clone_heap[of L h P F1] by simp_all
  show e1: "map_entries ?h1 P = map_entries h P"
    using assms c1 by (auto simp: map_entries_def valid_ref_def split: option.splits)
  fix c
  let ?h2 = "fst (clone L ?h1 (Some c) F2)"
  have c2: "\<And>a. a \<noteq> Suc (nxt h) \<Longrightarrow> cells ?h2 a = cells ?h1 a"
    using clone_heap[of L ?h1 "Some c" F2] n1 by simp
  show "map_entries ?h2 P = map_entries h P"
    using assms c1 c2 by (auto simp: map_entries_def valid_ref_def split: option.splits)
next
  assume a: "range_ok L \<and> wf_heap h \<and> no_panic L F1 \<and> no_panic L F2"
  from a assms obtain h1 where
    cl1: "clone L h P F1 = (h1, Inr (nxt h))" and
    m1: "map_of (cells h1 (nxt h)) = map_of (map_entries h P) ++ field_values L F1"
    using clone_ok[of L h P F1] by blast
  have h1: "h1 = fst (clone L h P F1)" using cl1 by simp
  have n1: "nxt h1 = Suc (nxt h)" and c1: "\<And>a. a \<noteq> nxt h \<Longrightarrow> cells h1 a = cells h a"
    using clone_heap[of L h P F1] by (simp_all add: h1)
  have wf1: "wf_heap h1" using a clone_wf[of h L P F1] by (simp add: h1)
  have v1: "valid_ref h1 (Some (nxt h))" by (simp add: valid_ref_def n1)
  from a wf1 v1 obtain h2 where
    cl2: "clone L h1 (Some (nxt h)) F2 = (h2, Inr (nxt h1))" and
    m2: "map_of (cells h2 (nxt h1)) = map_of (map_entries h1 (Some (nxt h))) ++ field_values L F2"
    using clone_ok[of L h1 "Some (nxt h)" F2] by blast
  have h2: "h2 = fst (clone L h1 (Some (nxt h)) F2)" using cl2 by simp
  have c2: "\<And>a. a \<noteq> nxt h1 \<Longrightarrow> cells h2 a = cells h1 a"
    using clone_heap[of L h1 "Some (nxt h)" F2] by (simp add: h2)
  have m: "map_of (cells h2 (nxt h1))
             = map_of (map_entries h P) ++ field_values L F1 ++ field_values L F2"
    using m1 m2 by (simp add: map_entries_def)
  have d1: "dom (field_values L F1) = field_keys F1" and d2: "dom (field_values L F2) = field_keys F2"
    using a by (simp_all add: dom_field_values)
  have old: "\<forall>a. a < nxt h \<longrightarrow> cells h1 a = cells h a \<and> cells h2 a = cells h a"
    using c1 c2 n1 by simp
  have b0: "dom (map_of (cells h2 (nxt h1)))
              = dom (map_of (map_entries h P)) \<union> field_keys F1 \<union> field_keys F2"
    using d1 d2 by (auto simp: m)
  have b1: "\<forall>k. k \<notin> field_keys F1 \<and> k \<notin> field_keys F2 \<longrightarrow>
                 map_of (cells h2 (nxt h1)) k = map_of (map_entries h P) k"
    using d1 d2 by (auto simp: m map_add_def domIff split: option.splits)
  have b2: "\<forall>k. k \<in> field_keys F1 \<and> k \<notin> field_keys F2 \<longrightarrow>
                 map_of (cells h2 (nxt h1)) k = field_values L F1 k"
    using d1 d2 by (auto simp: m map_add_def domIff split: option.splits)
  have b3: "\<forall>k. k \<in> field_keys F2 \<longrightarrow> map_of (cells h2 (nxt h1)) k = field_values L F2 k"
    using d2 by (auto simp: m map_add_def domIff split: option.splits)
  show "\<exists>h1 c1 h2 c2.
          clone L h P F1 = (h1, Inr c1) \<and> clone L h1 (Some c1) F2 = (h2, Inr c2) \<and>
          map_of (cells h2 c2)
            = map_of (map_entries h P) ++ field_values L F1 ++ field_values L F2 \<and>
          dom (map_of (cells h2 c2))
            = dom (map_of (map_entries h P)) \<union> field_keys F1 \<union> field_keys F2 \<and>
          (\<forall>k. k \<notin> field_keys F1 \<and> k \<notin> field_keys F2 \<longrightarrow>
               map_of (cells h2 c2) k = map_of (map_entries h P) k) \<and>
          (\<forall>k. k \<in> field_keys F1 \<and> k \<notin> field_keys F2 \<longrightarrow>
               map_of (cells h2 c2) k = field_values L F1 k) \<and>
          (\<forall>k. k \<in> field_keys F2 \<longrightarrow> map_of (cells h2 c2) k = field_values L F2 k) \<and>
          (\<forall>a. a < nxt h \<longrightarrow> cells h1 a = cells h a \<and> cells h2 a = cells h a)"
    using cl1 cl2 m b0 b1 b2 b3 old by blast
qed

theorem clone_derive_witness:
  "valid_ref heap1 (Some 0) \<and> range_ok lib0 \<and> wf_heap heap1 \<and>
   no_panic lib0 [zap_String ''env'' ''prod'', zap_Int64 ''n'' 7] \<and>
   no_panic lib0 [zap_String ''n'' ''x'', zap_Bool ''ok'' True] \<and>
   (\<exists>h1 c1 h2 c2.
      clone lib0 heap1 (Some 0) [zap_String ''env'' ''prod'', zap_Int64 ''n'' 7] = (h1, Inr c1) \<and>
      clone lib0 h1 (Some c1) [zap_String ''n'' ''x'', zap_Bool ''ok'' True] = (h2, Inr c2) \<and>
      map_of (cells h2 c2) ''svc'' = Some (VString ''api'') \<and>
      map_of (cells h2 c2) ''env'' = Some (VString ''prod'') \<and>
      map_of (cells h2 c2) ''n'' = Some (VString ''x'') \<and>
      map_of (cells h2 c2) ''ok'' = Some (VBool True) \<and>
      cells h1 0 = [(''svc'', VString ''api''), (''env'', VString ''dev'')] \<and>
      cells h2 0 = [(''svc'', VString ''api''), (''env'', VString ''dev'')])"
proof -
  let ?F1 = "[zap_String ''env'' ''prod'', zap_Int64 ''n'' 7]"
  let ?F2 = "[zap_String ''n'' ''x'', zap_Bool ''ok'' True]"
  have v: "valid_ref heap1 (Some 0)" by (simp add: valid_ref_def heap1_def)
  have n1: "no_panic lib0 ?F1" and n2: "no_panic lib0 ?F2"
    by (simp_all add: no_panic_def)
  have pre: "range_ok lib0 \<and> wf_heap heap1 \<and> no_panic lib0 ?F1 \<and> no_panic lib0 ?F2"
    using range_ok_lib0 wf_heap1 n1 n2 by simp
  from clone_derive[OF v, of lib0 ?F1 ?F2] pre
  obtain h1 c1 h2 c2 where
    c: "clone lib0 heap1 (Some 0) ?F1 = (h1, Inr c1)" "clone lib0 h1 (Some c1) ?F2 = (h2, Inr c2)"
    and m: "map_of (cells h2 c2)
              = map_of (map_entries heap1 (Some 0)) ++ field_values lib0 ?F1 ++ field_values lib0 ?F2"
    and old: "\<forall>a. a < nxt heap1 \<longrightarrow> cells h1 a = cells heap1 a \<and> cells h2 a = cells heap1 a"
    by blast
  have "map_of (cells h2 c2) ''svc'' = Some (VString ''api'')"
    "map_of (cells h2 c2) ''env'' = Some (VString ''prod'')"
    "map_of (cells h2 c2) ''n'' = Some (VString ''x'')"
    "map_of (cells h2 c2) ''ok'' = Some (VBool True)"
    by (simp_all add: m map_entries_def heap1_def map_add_def)
  moreover have "cells h1 0 = [(''svc'', VString ''api''), (''env'', VString ''dev'')]"
    "cells h2 0 = [(''svc'', VString ''api''), (''env'', VString ''dev'')]"
    using old by (simp_all add: heap1_def)
  ultimately show ?thesis
    using v pre c by blast
qed

section \<open>Severity\<close>

text \<open>
  C4. The default severity map sends debug to Debug, info to Info, warn to Warning, error
  to Error, and dpanic, panic and fatal to Critical. Every record that \<open>Write\<close> delivers
  has the severity the core's map gives to the level of the entry, and the default
  severity when the map has no entry for the level. Whether \<open>Write\<close> returns or panics
  depends neither on the level nor on the map: no level makes a write fail.
\<close>

theorem Write_severity:
  "DefaultSeverityMapping DebugLevel = Some gcl_Debug \<and>
   DefaultSeverityMapping InfoLevel = Some gcl_Info \<and>
   DefaultSeverityMapping WarnLevel = Some gcl_Warning \<and>
   DefaultSeverityMapping ErrorLevel = Some gcl_Error \<and>
   DefaultSeverityMapping DPanicLevel = Some gcl_Critical \<and>
   DefaultSeverityMapping PanicLevel = Some gcl_Critical \<and>
   DefaultSeverityMapping FatalLevel = Some gcl_Critical \<and>
   (\<forall>h' es r. Write L h c ze newFields = ((h', es), Inr r) \<longrightarrow>
      (\<exists>e. es = [e] \<and>
           Severity e = (case SeverityMapping c (Level ze) of
                           Some s \<Rightarrow> s
                         | None \<Rightarrow> gcl_Default))) \<and>
   (\<forall>m l. snd (Write L h (c\<lparr>SeverityMapping := m\<rparr>) (ze\<lparr>Level := l\<rparr>) newFields)
            = snd (Write L h c ze newFields))"
proof -
  have "\<forall>h' es r. Write L h c ze newFields = ((h', es), Inr r) \<longrightarrow>
      (\<exists>e. es = [e] \<and>
           Severity e = (case SeverityMapping c (Level ze) of
                           Some s \<Rightarrow> s
                         | None \<Rightarrow> gcl_Default))"
    using Write_delivers by blast
  moreover have "\<forall>m l. snd (Write L h (c\<lparr>SeverityMapping := m\<rparr>) (ze\<lparr>Level := l\<rparr>) newFields)
            = snd (Write L h c ze newFields)"
    by (simp add: Write_outcome_Severity)
  ultimately show ?thesis
    by (simp add: DefaultSeverityMapping_def Level_defs)
qed

theorem Write_severity_witness:
  "DefaultSeverityMapping 42 = None \<and>
   snd (Write lib0 heap0 core0 (entry0\<lparr>Level := 42\<rparr>) [zap_String ''user'' ''alice'']) = Inr None \<and>
   map Severity (snd (fst (Write lib0 heap0 core0 (entry0\<lparr>Level := 42\<rparr>)
                             [zap_String ''user'' ''alice''])))
     = [gcl_Default] \<and>
   map Severity (snd (fst (Write lib0 heap0 core0 entry0 [zap_String ''user'' ''alice''])))
     = [gcl_Warning]"
proof -
  let ?F = "[zap_String ''user'' ''alice'']"
  have np: "no_panic lib0 ?F" by (simp add: no_panic_def)
  have st: "\<And>k v. field_values lib0 ?F k = Some v \<Longrightarrow> k \<noteq> ''httpRequest'' \<and> (\<exists>s. v = VString s)"
    by (auto split: if_splits)
  have un: "DefaultSeverityMapping 42 = None"
    by (simp add: DefaultSeverityMapping_def Level_defs)
  from Write_core0_strings[OF np st, of "entry0\<lparr>Level := 42\<rparr>"] obtain h' e where
    w: "Write lib0 heap0 core0 (entry0\<lparr>Level := 42\<rparr>) ?F = ((h', [e]), Inr None)"
    by blast
  from Write_core0_strings[OF np st, of entry0] obtain h2 e2 where
    w2: "Write lib0 heap0 core0 entry0 ?F = ((h2, [e2]), Inr None)"
    by blast
  from Write_severity[of lib0 heap0 core0 "entry0\<lparr>Level := 42\<rparr>" ?F] w
  have "Severity e = gcl_Default"
    by (auto simp: core0_def un)
  moreover from Write_severity[of lib0 heap0 core0 entry0 ?F] w2
  have "Severity e2 = gcl_Warning"
    by (auto simp: core0_def entry0_def)
  ultimately show ?thesis
    using un w w2 by simp
qed

section \<open>The threshold of Tee\<close>

text \<open>
  C5. The claim is that \<open>Tee\<close> over a base core enabled from warn on, with a Stackdriver
  core enabled at debug, is enabled at debug. \<open>Tee\<close> takes no Stackdriver core: it makes
  one and gives it the lowest level at which the base core is enabled. Over a base core
  enabled from warn on, the core it makes has the threshold warn, the composite is not
  enabled at debug, and \<open>Check\<close> does not add the core for a debug entry.
\<close>

theorem Tee_warn_base_counterexample:
  "MinLevel (snd (Tee ((\<le>) WarnLevel) 0)) = WarnLevel \<and>
   \<not> Enabled (snd (Tee ((\<le>) WarnLevel) 0)) DebugLevel \<and>
   \<not> NewTee_Enabled (Tee ((\<le>) WarnLevel) 0) DebugLevel \<and>
   Check (snd (Tee ((\<le>) WarnLevel) 0)) (entry0\<lparr>Level := DebugLevel\<rparr>) [] = []"
proof -
  have "Tee_loop ((\<le>) WarnLevel) DebugLevel 0 = WarnLevel"
    by (rule Tee_loop_threshold) (simp_all add: Level_defs)
  then show ?thesis
    by (simp add: Tee_def Let_def NewTee_Enabled_def Enabled_def Check_def Level_defs)
qed

text \<open>
  C5, as the code has it. When the base core is enabled exactly from a level \<open>t\<close> between
  debug and fatal on, the core that \<open>Tee\<close> makes has the threshold \<open>t\<close>, the composite is
  enabled exactly from \<open>t\<close> on, and \<open>Check\<close> adds the core exactly for the entries from
  \<open>t\<close> on. A composite is enabled where one of its two children is, so its threshold is
  the lowest of theirs; in the pair that \<open>Tee\<close> builds both are \<open>t\<close>.
\<close>

theorem Tee_threshold:
  "(DebugLevel \<le> t \<and> t \<le> FatalLevel \<and> (\<forall>l. zc l \<longleftrightarrow> t \<le> l) \<longrightarrow>
      MinLevel (snd (Tee zc logger)) = t \<and>
      (\<forall>l. NewTee_Enabled (Tee zc logger) l \<longleftrightarrow> t \<le> l) \<and>
      (\<forall>l. Enabled (snd (Tee zc logger)) l \<longleftrightarrow> t \<le> l) \<and>
      (\<forall>e ce. Check (snd (Tee zc logger)) e ce
                = (if t \<le> Level e then ce @ [snd (Tee zc logger)] else ce))) \<and>
   (\<forall>zc' gc l. NewTee_Enabled (zc', gc) l \<longleftrightarrow> zc' l \<or> MinLevel gc \<le> l)"
proof -
  have "MinLevel (snd (Tee zc logger)) = t \<and>
      (\<forall>l. NewTee_Enabled (Tee zc logger) l \<longleftrightarrow> t \<le> l) \<and>
      (\<forall>l. Enabled (snd (Tee zc logger)) l \<longleftrightarrow> t \<le> l) \<and>
      (\<forall>e ce. Check (snd (Tee zc logger)) e ce
                = (if t \<le> Level e then ce @ [snd (Tee zc logger)] else ce))"
    if a: "DebugLevel \<le> t \<and> t \<le> FatalLevel \<and> (\<forall>l. zc l \<longleftrightarrow> t \<le> l)"
  proof -
    have "Tee_loop zc DebugLevel 0 = t"
      using a Tee_loop_threshold[of zc t DebugLevel 0] by blast
    then have m: "MinLevel (snd (Tee zc logger)) = t"
      by (simp add: Tee_def Let_def)
    then show ?thesis
      using a by (simp add: NewTee_Enabled_def Enabled_def Check_def Tee_def Let_def)
  qed
  moreover have "\<forall>zc' gc l. NewTee_Enabled (zc', gc) l \<longleftrightarrow> zc' l \<or> MinLevel gc \<le> l"
    by (simp add: NewTee_Enabled_def Enabled_def)
  ultimately show ?thesis
    by blast
qed

theorem Tee_threshold_witness:
  "DebugLevel \<le> WarnLevel \<and> WarnLevel \<le> FatalLevel \<and>
   MinLevel (snd (Tee ((\<le>) WarnLevel) 0)) = WarnLevel \<and>
   \<not> NewTee_Enabled (Tee ((\<le>) WarnLevel) 0) InfoLevel \<and>
   NewTee_Enabled (Tee ((\<le>) WarnLevel) 0) ErrorLevel"
proof -
  have a: "DebugLevel \<le> WarnLevel" "WarnLevel \<le> FatalLevel" "\<forall>l. ((\<le>) WarnLevel) l \<longleftrightarrow> WarnLevel \<le> l"
    by (simp_all add: Level_defs)
  from Tee_threshold[of WarnLevel "(\<le>) WarnLevel" 0] a show ?thesis
    by (simp add: Level_defs)
qed

section \<open>The label scenario\<close>

text \<open>
  C6. On a core with a logger and no fields of its own, writing an entry with no stack
  trace and the fields \<^verbatim>\<open>labels.env = "prod"\<close>, \<^verbatim>\<open>labels.tier = "backend"\<close> and
  \<^verbatim>\<open>user = "alice"\<close> delivers one record, whose labels are \<^verbatim>\<open>env = "prod"\<close> and
  \<^verbatim>\<open>tier = "backend"\<close> and whose payload holds the message under \<^verbatim>\<open>message\<close> and
  \<^verbatim>\<open>user = "alice"\<close>, and nothing else, in whatever order the loop visits the payload.
  And for every field list: a record that \<open>Write\<close> delivers has the message of the entry
  under \<^verbatim>\<open>message\<close>, whatever field the caller gave that name.
\<close>

theorem Write_label_extraction:
  "(range_ok L \<and> valid_ref h (fields' c) \<and> map_entries h (fields' c) = [] \<and>
    Logger c = Some n \<and> Stack ze = [] \<longrightarrow>
      (\<exists>h' e.
         Write L h c ze [zap_String ''labels.env'' ''prod'',
                         zap_String ''labels.tier'' ''backend'',
                         zap_String ''user'' ''alice'']
           = ((h', [e]), Inr None) \<and>
         labels_of e = [''env'' \<mapsto> ''prod'', ''tier'' \<mapsto> ''backend''] \<and>
         map_of (cells h' (Payload e))
           = [''message'' \<mapsto> VString (Message ze), ''user'' \<mapsto> VString ''alice''])) \<and>
   (\<forall>F h' es r. Write L h c ze F = ((h', es), Inr r) \<longrightarrow>
      (\<exists>e. es = [e] \<and>
           map_of (cells h' (Payload e)) ''message'' = Some (VString (Message ze))))"
proof (intro conjI allI impI)
  assume "range_ok L \<and> valid_ref h (fields' c) \<and> map_entries h (fields' c) = [] \<and>
    Logger c = Some n \<and> Stack ze = []"
  then show "\<exists>h' e.
         Write L h c ze [zap_String ''labels.env'' ''prod'',
                         zap_String ''labels.tier'' ''backend'',
                         zap_String ''user'' ''alice'']
           = ((h', [e]), Inr None) \<and>
         labels_of e = [''env'' \<mapsto> ''prod'', ''tier'' \<mapsto> ''backend''] \<and>
         map_of (cells h' (Payload e))
           = [''message'' \<mapsto> VString (Message ze), ''user'' \<mapsto> VString ''alice'']"
    using Write_label_scenario[of L h c n ze] by blast
next
  fix F h' es r
  assume "Write L h c ze F = ((h', es), Inr r)"
  from Write_delivers[OF this]
  show "\<exists>e. es = [e] \<and> map_of (cells h' (Payload e)) ''message'' = Some (VString (Message ze))"
    by blast
qed

theorem Write_label_extraction_witness:
  "range_ok lib0 \<and> valid_ref heap0 (fields' core0) \<and> map_entries heap0 (fields' core0) = [] \<and>
   Logger core0 = Some 0 \<and> Stack entry0 = [] \<and>
   (\<exists>h' e.
      Write lib0 heap0 core0 entry0 [zap_String ''labels.env'' ''prod'',
                                     zap_String ''labels.tier'' ''backend'',
                                     zap_String ''user'' ''alice'']
        = ((h', [e]), Inr None) \<and>
      labels_of e = [''env'' \<mapsto> ''prod'', ''tier'' \<mapsto> ''backend''] \<and>
      map_of (cells h' (Payload e))
        = [''message'' \<mapsto> VString ''hello'', ''user'' \<mapsto> VString ''alice''])"
proof -
  have a: "valid_ref heap0 (fields' core0)" "map_entries heap0 (fields' core0) = []"
    "Logger core0 = Some 0" "Stack entry0 = []"
    by (simp_all add: valid_ref_def core0_def map_entries_def entry0_def)
  have m: "Message entry0 = ''hello''" by (simp add: entry0_def)
  from Write_label_extraction[of lib0 heap0 core0 0 entry0] show ?thesis
    using a range_ok_lib0 unfolding m by blast
qed

section \<open>Integer fields\<close>

text \<open>
  C7. For every integer variant and every value \<open>v\<close> of its width (a word of that width
  is exactly an in-range value), the field that zap builds for \<open>v\<close> comes out of \<open>clone\<close>
  as the same word at the same width, under its key: widening to the 64-bit slot and
  narrowing back lose neither sign nor magnitude. And for every field \<open>f\<close> of an integer
  variant, however it was built: when the number in its slot is in the range of the width,
  the value \<open>clone\<close> stores is the word of that width with the same number (read with its
  sign for a signed variant, without for an unsigned one); the 64-bit variants keep the
  slot as it is. \<^verbatim>\<open>uintptr\<close> is taken at 64 bits.
\<close>

theorem clone_integer_roundtrip:
  "clone_lookup L h orig [zap_Int64 k i64] k = Inr (Some (VInt64 i64)) \<and>
   clone_lookup L h orig [zap_Int32 k i32] k = Inr (Some (VInt32 i32)) \<and>
   clone_lookup L h orig [zap_Int16 k i16] k = Inr (Some (VInt16 i16)) \<and>
   clone_lookup L h orig [zap_Int8 k i8] k = Inr (Some (VInt8 i8)) \<and>
   clone_lookup L h orig [zap_Uint64 k u64] k = Inr (Some (VUint64 u64)) \<and>
   clone_lookup L h orig [zap_Uint32 k u32] k = Inr (Some (VUint32 u32)) \<and>
   clone_lookup L h orig [zap_Uint16 k u16] k = Inr (Some (VUint16 u16)) \<and>
   clone_lookup L h orig [zap_Uint8 k u8] k = Inr (Some (VUint8 u8)) \<and>
   clone_lookup L h orig [zap_Uintptr k up] k = Inr (Some (VUintptr up)) \<and>
   (Type f = Int64Type \<longrightarrow>
      clone_lookup L h orig [f] (Key f) = Inr (Some (VInt64 (Integer f)))) \<and>
   (Type f = Int32Type \<and> - (2 ^ 31) \<le> sint (Integer f) \<and> sint (Integer f) < 2 ^ 31 \<longrightarrow>
      (\<exists>w. clone_lookup L h orig [f] (Key f) = Inr (Some (VInt32 w)) \<and>
           sint w = sint (Integer f))) \<and>
   (Type f = Int16Type \<and> - (2 ^ 15) \<le> sint (Integer f) \<and> sint (Integer f) < 2 ^ 15 \<longrightarrow>
      (\<exists>w. clone_lookup L h orig [f] (Key f) = Inr (Some (VInt16 w)) \<and>
           sint w = sint (Integer f))) \<and>
   (Type f = Int8Type \<and> - (2 ^ 7) \<le> sint (Integer f) \<and> sint (Integer f) < 2 ^ 7 \<longrightarrow>
      (\<exists>w. clone_lookup L h orig [f] (Key f) = Inr (Some (VInt8 w)) \<and>
           sint w = sint (Integer f))) \<and>
   (Type f = Uint64Type \<longrightarrow>
      clone_lookup L h orig [f] (Key f) = Inr (Some (VUint64 (Integer f)))) \<and>
   (Type f = Uint32Type \<and> 0 \<le> sint (Integer f) \<and> sint (Integer f) < 2 ^ 32 \<longrightarrow>
      (\<exists>w. clone_lookup L h orig [f] (Key f) = Inr (Some (VUint32 w)) \<and>
           uint w = sint (Integer f))) \<and>
   (Type f = Uint16Type \<and> 0 \<le> sint (Integer f) \<and> sint (Integer f) < 2 ^ 16 \<longrightarrow>
      (\<exists>w. clone_lookup L h orig [f] (Key f) = Inr (Some (VUint16 w)) \<and>
           uint w = sint (Integer f))) \<and>
   (Type f = Uint8Type \<and> 0 \<le> sint (Integer f) \<and> sint (Integer f) < 2 ^ 8 \<longrightarrow>
      (\<exists>w. clone_lookup L h orig [f] (Key f) = Inr (Some (VUint8 w)) \<and>
           uint w = sint (Integer f))) \<and>
   (Type f = UintptrType \<longrightarrow>
      clone_lookup L h orig [f] (Key f) = Inr (Some (VUintptr (Integer f))))"
proof -
  have zap: "\<And>g v. classify L g = Inr (Some v) \<Longrightarrow> Key g = k \<Longrightarrow>
          clone_lookup L h orig [g] k = Inr (Some v)"
    using clone_lookup_single by blast
  have s32: "- (2 ^ 31) \<le> sint (Integer f) \<Longrightarrow> sint (Integer f) < 2 ^ 31 \<Longrightarrow>
             sint (ucast (Integer f) :: 32 word) = sint (Integer f)"
    by (rule sint_ucast_in_range) simp_all
  have s16: "- (2 ^ 15) \<le> sint (Integer f) \<Longrightarrow> sint (Integer f) < 2 ^ 15 \<Longrightarrow>
             sint (ucast (Integer f) :: 16 word) = sint (Integer f)"
    by (rule sint_ucast_in_range) simp_all
  have s8: "- (2 ^ 7) \<le> sint (Integer f) \<Longrightarrow> sint (Integer f) < 2 ^ 7 \<Longrightarrow>
            sint (ucast (Integer f) :: 8 word) = sint (Integer f)"
    by (rule sint_ucast_in_range) simp_all
  have u32: "0 \<le> sint (Integer f) \<Longrightarrow> sint (Integer f) < 2 ^ 32 \<Longrightarrow>
             uint (ucast (Integer f) :: 32 word) = sint (Integer f)"
    by (rule uint_ucast_in_range) simp_all
  have u16: "0 \<le> sint (Integer f) \<Longrightarrow> sint (Integer f) < 2 ^ 16 \<Longrightarrow>
             uint (ucast (Integer f) :: 16 word) = sint (Integer f)"
    by (rule uint_ucast_in_range) simp_all
  have u8: "0 \<le> sint (Integer f) \<Longrightarrow> sint (Integer f) < 2 ^ 8 \<Longrightarrow>
            uint (ucast (Integer f) :: 8 word) = sint (Integer f)"
    by (rule uint_ucast_in_range) simp_all
  show ?thesis
    using s32 s16 s8 u32 u16 u8
    by (simp add: zap clone_lookup_single classify_integer_types)
qed

theorem clone_integer_roundtrip_witness:
  "(\<exists>w. clone_lookup lib0 heap0 None [zap_Field ''n'' Int8Type (- 128) []] ''n''
          = Inr (Some (VInt8 w)) \<and> sint w = - 128) \<and>
   (\<exists>w. clone_lookup lib0 heap0 None [zap_Field ''n'' Uint8Type 255 []] ''n''
          = Inr (Some (VUint8 w)) \<and> uint w = 255) \<and>
   (\<exists>w. clone_lookup lib0 heap0 None [zap_Field ''n'' Int32Type 2147483647 []] ''n''
          = Inr (Some (VInt32 w)) \<and> sint w = 2147483647) \<and>
   (\<exists>w. clone_lookup lib0 heap0 None [zap_Field ''n'' Uint16Type 65535 []] ''n''
          = Inr (Some (VUint16 w)) \<and> uint w = 65535)"
proof -
  have a: "\<exists>w. clone_lookup lib0 heap0 None [zap_Field ''n'' Int8Type (- 128) []] ''n''
          = Inr (Some (VInt8 w)) \<and> sint w = - 128"
    using clone_integer_roundtrip[where L = lib0 and h = heap0 and orig = None
        and f = "zap_Field ''n'' Int8Type (- 128) []"]
    by (simp add: zap_Field_def)
  have b: "\<exists>w. clone_lookup lib0 heap0 None [zap_Field ''n'' Uint8Type 255 []] ''n''
          = Inr (Some (VUint8 w)) \<and> uint w = 255"
    using clone_integer_roundtrip[where L = lib0 and h = heap0 and orig = None
        and f = "zap_Field ''n'' Uint8Type 255 []"]
    by (simp add: zap_Field_def)
  have c: "\<exists>w. clone_lookup lib0 heap0 None [zap_Field ''n'' Int32Type 2147483647 []] ''n''
          = Inr (Some (VInt32 w)) \<and> sint w = 2147483647"
    using clone_integer_roundtrip[where L = lib0 and h = heap0 and orig = None
        and f = "zap_Field ''n'' Int32Type 2147483647 []"]
    by (simp add: zap_Field_def)
  have d: "\<exists>w. clone_lookup lib0 heap0 None [zap_Field ''n'' Uint16Type 65535 []] ''n''
          = Inr (Some (VUint16 w)) \<and> uint w = 65535"
    using clone_integer_roundtrip[where L = lib0 and h = heap0 and orig = None
        and f = "zap_Field ''n'' Uint16Type 65535 []"]
    by (simp add: zap_Field_def)
  from a b c d show ?thesis by blast
qed

section \<open>The trace scenario\<close>

text \<open>
  C8. The header value \<^verbatim>\<open>105445aa7843bc8bf206b120001000/0;o=1\<close> is taken apart into the
  trace id, the empty span id (the span \<^verbatim>\<open>0\<close> becomes empty) and the flag true; with the
  project \<^verbatim>\<open>my-project\<close> the three fields built from them are the string
  \<^verbatim>\<open>projects/my-project/traces/105445aa7843bc8bf206b120001000\<close>, the empty string and the
  boolean true, under the three fixed keys, and the switch of \<open>clone\<close> renders them as
  these values.
\<close>

theorem trace_context_scenario:
  "deconstructXCloudTraceContext ''105445aa7843bc8bf206b120001000/0;o=1''
     = (''105445aa7843bc8bf206b120001000'', [], True) \<and>
   addCloudLoggingFields ''105445aa7843bc8bf206b120001000'' [] True ''my-project''
     = (\<lparr>Key = ''logging.googleapis.com/trace'', Type = StringType, Integer = 0,
         String = ''projects/my-project/traces/105445aa7843bc8bf206b120001000'',
         Interface = VNil\<rparr>,
        \<lparr>Key = ''logging.googleapis.com/spanId'', Type = StringType, Integer = 0,
         String = [], Interface = VNil\<rparr>,
        \<lparr>Key = ''logging.googleapis.com/trace_sampled'', Type = BoolType, Integer = 1,
         String = [], Interface = VNil\<rparr>) \<and>
   (case deconstructXCloudTraceContext ''105445aa7843bc8bf206b120001000/0;o=1'' of
      (traceID, spanID, sampled) \<Rightarrow>
        (case addCloudLoggingFields traceID spanID sampled ''my-project'' of
           (traceField, spanField, sampledField) \<Rightarrow>
             [classify L traceField, classify L spanField, classify L sampledField]))
     = [Inr (Some (VString ''projects/my-project/traces/105445aa7843bc8bf206b120001000'')),
        Inr (Some (VString [])),
        Inr (Some (VBool True))]"
proof -
  have d: "deconstructXCloudTraceContext ''105445aa7843bc8bf206b120001000/0;o=1''
             = (''105445aa7843bc8bf206b120001000'', [], True)"
    by (simp add: deconstructXCloudTraceContext_def FindStringSubmatch_def is_hex_def
        is_digit_def Let_def)
  have a: "addCloudLoggingFields ''105445aa7843bc8bf206b120001000'' [] True ''my-project''
     = (\<lparr>Key = ''logging.googleapis.com/trace'', Type = StringType, Integer = 0,
         String = ''projects/my-project/traces/105445aa7843bc8bf206b120001000'',
         Interface = VNil\<rparr>,
        \<lparr>Key = ''logging.googleapis.com/spanId'', Type = StringType, Integer = 0,
         String = [], Interface = VNil\<rparr>,
        \<lparr>Key = ''logging.googleapis.com/trace_sampled'', Type = BoolType, Integer = 1,
         String = [], Interface = VNil\<rparr>)"
    by (simp add: addCloudLoggingFields_def zap_String_def zap_Bool_def zap_Field_def
        traceKey_def spanKey_def traceSampledKey_def)
  show ?thesis
    by (simp add: d a classify_def)
qed

section \<open>The error that Write returns\<close>

text \<open>
  C9. Whenever \<open>Write\<close> returns, the error it returns is nil, for every library, heap,
  core, entry and field list.
\<close>

theorem Write_returns_nil_error:
  "Write L h c ze newFields = (st, Inr r) \<Longrightarrow> r = None"
  by (auto simp: Write_alt split: prod.splits sum.splits option.splits)

theorem Write_returns_nil_error_witness:
  "snd (Write lib0 heap0 core0 entry0 [zap_String ''user'' ''alice'']) = Inr None"
proof -
  let ?F = "[zap_String ''user'' ''alice'']"
  have np: "no_panic lib0 ?F" by (simp add: no_panic_def)
  have "\<And>k v. field_values lib0 ?F k = Some v \<Longrightarrow> k \<noteq> ''httpRequest'' \<and> (\<exists>s. v = VString s)"
    by (auto split: if_splits)
  from Write_core0_strings[OF np this, of entry0] obtain st r where
    w: "Write lib0 heap0 core0 entry0 ?F = (st, Inr r)"
    by blast
  from Write_returns_nil_error[OF w] w show ?thesis by simp
qed

section \<open>The HTTP request of a record\<close>

text \<open>
  C10. The claim is that a size that fails to parse is replaced by zero. The request size
  \<^verbatim>\<open>9223372036854775808\<close> fails to parse with a range error, and the record that \<open>Write\<close>
  delivers has the request size 9223372036854775807.
\<close>

theorem Write_httpRequest_zero_counterexample:
  "snd (ParseInt ''9223372036854775808'') = Some ErrRange \<and>
   snd (Write lib0 heap0 core0 entry0 [zapdriver_HTTP payload0]) = Inr None \<and>
   map (map_option HTTPRequest.RequestSize \<circ> HTTPRequest)
     (snd (fst (Write lib0 heap0 core0 entry0 [zapdriver_HTTP payload0])))
     = [Some 0x7FFFFFFFFFFFFFFF]"
  using Write_payload0_run by (simp add: ParseInt_range_example)

text \<open>
  C10, as the code has it. When the payload holds a payload pointer that is not nil under
  \<^verbatim>\<open>httpRequest\<close> (and no label that is no string), \<open>Write\<close> returns nil and delivers one
  record, whatever the parsers say: the errors of the four parsers are dropped, and the
  request of the record holds what each parser returned beside its error. For the two sizes
  that is 0 after a syntax error, and after a range error the bound of \<^verbatim>\<open>int64\<close> on the side
  of the sign; the URL and the latency are what \<^verbatim>\<open>url.Parse\<close> and \<^verbatim>\<open>time.ParseDuration\<close>
  return. The key \<^verbatim>\<open>httpRequest\<close> is gone from the payload.
\<close>

theorem Write_httpRequest_parse_errors:
  "(range_ok L \<and> clone L h (fields' c) newFields = (h1, Inr payload) \<and>
    Logger c = Some n \<and>
    (\<forall>k v. map_of (cells h1 payload) k = Some v \<and> HasPrefix k ''labels.''
             \<longrightarrow> (\<exists>s. v = VString s)) \<and>
    map_of (cells h1 payload) ''httpRequest'' = Some (VHTTPPayload (Some pl)) \<longrightarrow>
      (\<exists>h' e.
      Write L h c ze newFields = ((h', [e]), Inr None) \<and>
      HTTPRequest e
        = Some \<lparr>Request = \<lparr>Method = RequestMethod pl,
                           URL = fst (url_Parse L (RequestURL pl)),
                           Header = [(''User-Agent'', [UserAgent pl]),
                                     (''Referer'', [Referer pl])]\<rparr>,
                RequestSize = fst (ParseInt (HTTPPayload.RequestSize pl)),
                Status = HTTPPayload.Status pl,
                ResponseSize = fst (ParseInt (HTTPPayload.ResponseSize pl)),
                Latency = fst (ParseDuration L (HTTPPayload.Latency pl)),
                LocalIP = ServerIP pl,
                RemoteIP = HTTPPayload.RemoteIP pl,
                CacheHit = HTTPPayload.CacheHit pl,
                CacheValidatedWithOriginServer
                  = HTTPPayload.CacheValidatedWithOriginServer pl\<rparr> \<and>
      map_of (cells h' (Payload e)) ''httpRequest'' = None)) \<and>
   (\<forall>s. snd (ParseInt s) = Some ErrSyntax \<longrightarrow> fst (ParseInt s) = 0) \<and>
   (\<forall>s. snd (ParseInt s) = Some ErrRange \<longrightarrow>
        fst (ParseInt s) = 0x7FFFFFFFFFFFFFFF \<or> fst (ParseInt s) = 0x8000000000000000)"
  using Write_httpRequest_decoded[of L h c newFields h1 payload n pl ze] ParseInt_errors
  by blast

theorem Write_httpRequest_parse_errors_witness:
  "range_ok lib0 \<and> Logger core0 = Some 0 \<and>
   snd (clone lib0 heap0 (fields' core0) [zapdriver_HTTP payload0]) = Inr 0 \<and>
   map_of (cells (fst (clone lib0 heap0 (fields' core0) [zapdriver_HTTP payload0])) 0)
     ''httpRequest'' = Some (VHTTPPayload (Some payload0)) \<and>
   (\<exists>h' e.
      Write lib0 heap0 core0 entry0 [zapdriver_HTTP payload0] = ((h', [e]), Inr None) \<and>
      HTTPRequest e
        = Some \<lparr>Request = \<lparr>Method = ''GET'', URL = None,
                            Header = [(''User-Agent'', [''curl'']), (''Referer'', [[]])]\<rparr>,
                RequestSize = 0x7FFFFFFFFFFFFFFF, Status = 200, ResponseSize = 0, Latency = 0,
                LocalIP = ''10.0.0.2'', RemoteIP = ''10.0.0.1'', CacheHit = False,
                CacheValidatedWithOriginServer = False\<rparr> \<and>
      map_of (cells h' (Payload e)) ''httpRequest'' = None)"
proof -
  from clone_payload0 obtain h1 where
    cl: "clone lib0 heap0 (fields' core0) [zapdriver_HTTP payload0] = (h1, Inr 0)" and
    m1: "map_of (cells h1 0) = [''httpRequest'' \<mapsto> VHTTPPayload (Some payload0)]"
    by blast
  have lg: "Logger core0 = Some 0" by (simp add: core0_def)
  have lab: "\<forall>k v. map_of (cells h1 0) k = Some v \<and> HasPrefix k ''labels.'' \<longrightarrow> (\<exists>s. v = VString s)"
    by (auto simp: m1 HasPrefix_def)
  have hr: "map_of (cells h1 0) ''httpRequest'' = Some (VHTTPPayload (Some payload0))"
    by (simp add: m1)
  from Write_httpRequest_parse_errors[of lib0 heap0 core0 "[zapdriver_HTTP payload0]" h1 0 0 payload0 entry0]
    range_ok_lib0 cl lg lab hr
  obtain h' e where
    "Write lib0 heap0 core0 entry0 [zapdriver_HTTP payload0] = ((h', [e]), Inr None)"
    "HTTPRequest e = Some (decode_httpRequest lib0 payload0)"
    "map_of (cells h' (Payload e)) ''httpRequest'' = None"
    by (auto simp: decode_httpRequest_def Let_def)
  then show ?thesis
    using range_ok_lib0 lg cl hr by (auto simp: decode_payload0)
qed

end
